(* ===== verification/Prelude.thy ===== *)
theory Prelude
  imports Main "HOL-Library.Word" "HOL-Library.Sublist" "HOL-Library.State_Monad"
begin

text \<open>
  Shared vocabulary of the development: the C integer types at the width the 64-bit
  Android ABIs give them, the two string tests of C++20 the code uses, numerals in a base
  (what the kernel prints and what \<open>operator>>\<close> and \<open>std::to_string\<close> read and write),
  and loops over a range in the state monad. Strings are lists of bytes (\<open>char\<close>).
\<close>

section \<open>Types\<close>

type_synonym byte = "8 word"
type_synonym c_int = "32 word"        \<comment> \<open>\<open>int\<close>, read with \<open>sint\<close>\<close>
type_synonym u16 = "16 word"
type_synonym u32 = "32 word"
type_synonym u64 = "64 word"          \<comment> \<open>\<open>uintptr_t\<close>, \<open>size_t\<close>, \<open>unsigned long\<close>\<close>
type_synonym dev_t = "64 word"
type_synonym ino_t = "64 word"

text \<open>Unfolding rules for small definitions, and the exact effect of state operations.\<close>

named_theorems char_simps "character classes and digits"
named_theorems run_simps "what running one operation returns and leaves behind"

section \<open>Strings\<close>

text \<open>\<open>std::string::starts_with\<close> and \<open>std::string::ends_with\<close>.\<close>

abbreviation starts_with :: "string \<Rightarrow> string \<Rightarrow> bool" where
  "starts_with s p \<equiv> prefix p s"

abbreviation ends_with :: "string \<Rightarrow> string \<Rightarrow> bool" where
  "ends_with s p \<equiv> suffix p s"

text \<open>\<open>std::isspace\<close> in the "C" locale.\<close>

definition is_space :: "char \<Rightarrow> bool" where
  "is_space c \<longleftrightarrow> of_char c = (32 :: nat) \<or> (9 :: nat) \<le> of_char c \<and> of_char c \<le> (13 :: nat)"

abbreviation newline :: char where
  "newline \<equiv> CHR 0x0A"

lemma newline_is_space [simp]: "is_space newline"
  by (simp add: is_space_def)

lemma blank_is_space [simp]: "is_space (CHR '' '')"
  by (simp add: is_space_def)

lemma separator_not_space [simp]: "\<not> is_space (CHR ''-'')" "\<not> is_space (CHR '':'')"
  by (simp_all add: is_space_def)

lemma sint_eq_iff: "sint a = sint b \<longleftrightarrow> a = b"
  by (auto simp: signed_word_eqI)

text \<open>A word: what \<open>operator>>\<close> reads into a string.\<close>

definition is_word :: "string \<Rightarrow> bool" where
  "is_word w \<longleftrightarrow> w \<noteq> [] \<and> list_all (\<lambda>c. \<not> is_space c) w"

lemma is_word_nonempty [simp]: "is_word w \<Longrightarrow> w \<noteq> []"
  by (simp add: is_word_def)

lemma is_word_hd [simp]: "is_word w \<Longrightarrow> \<not> is_space (hd w)"
  by (cases w) (simp_all add: is_word_def)

lemma is_word_no_newline: "is_word w \<Longrightarrow> newline \<notin> set w"
  by (auto simp: is_word_def list_all_iff)

lemma takeWhile_stop:
  "list_all P xs \<Longrightarrow> ys = [] \<or> \<not> P (hd ys) \<Longrightarrow> takeWhile P (xs @ ys) = xs"
  by (cases ys) (auto simp: list_all_iff)

lemma dropWhile_stop:
  "list_all P xs \<Longrightarrow> ys = [] \<or> \<not> P (hd ys) \<Longrightarrow> dropWhile P (xs @ ys) = ys"
  by (cases ys) (auto simp: list_all_iff)

section \<open>Digits and numerals\<close>

definition digit_val :: "char \<Rightarrow> nat" where
  "digit_val c =
     (let n = of_char c in
      if 48 \<le> n \<and> n \<le> 57 then n - 48
      else if 97 \<le> n \<and> n \<le> 102 then n - 87
      else if 65 \<le> n \<and> n \<le> 70 then n - 55
      else 255)"

definition is_digit :: "nat \<Rightarrow> char \<Rightarrow> bool" where
  "is_digit b c \<longleftrightarrow> digit_val c < b"

definition digit_char :: "nat \<Rightarrow> char" where
  "digit_char d = ''0123456789abcdef'' ! d"

definition numeral_value :: "nat \<Rightarrow> string \<Rightarrow> nat" where
  "numeral_value b s = foldl (\<lambda>a c. a * b + digit_val c) 0 s"

fun show_nat :: "nat \<Rightarrow> nat \<Rightarrow> string" where
  "show_nat b n =
     (if n < b \<or> b < 2 then [digit_char n] else show_nat b (n div b) @ [digit_char (n mod b)])"

declare show_nat.simps [simp del]

text \<open>\<open>std::to_string(int)\<close>.\<close>

definition to_string :: "c_int \<Rightarrow> string" where
  "to_string i =
     (if sint i < 0 then CHR ''-'' # show_nat 10 (nat (- sint i)) else show_nat 10 (nat (sint i)))"

lemma digit_val_digit_char: "d < 16 \<Longrightarrow> digit_val (digit_char d) = d"
proof -
  assume "d < 16"
  then have "d \<in> {..<16}" by simp
  then have "d \<in> {0, 1, 2, 3, 4, 5, 6, 7, 8, 9, 10, 11, 12, 13, 14, 15}"
    by (simp add: lessThan_nat_numeral lessThan_Suc) blast
  then show ?thesis by (auto simp: digit_char_def digit_val_def)
qed

lemma is_digit_digit_char [simp]: "d < b \<Longrightarrow> b \<le> 16 \<Longrightarrow> is_digit b (digit_char d)"
  by (simp add: is_digit_def digit_val_digit_char)

lemma digit_not_space: "b \<le> 16 \<Longrightarrow> is_digit b c \<Longrightarrow> \<not> is_space c"
  by (auto simp: is_digit_def digit_val_def is_space_def Let_def split: if_splits)

lemma digit_not_sign: "b \<le> 16 \<Longrightarrow> is_digit b c \<Longrightarrow> c \<noteq> CHR ''+'' \<and> c \<noteq> CHR ''-''"
  by (auto simp: is_digit_def digit_val_def)

lemma digit_not_x: "b \<le> 16 \<Longrightarrow> is_digit b c \<Longrightarrow> c \<noteq> CHR ''x'' \<and> c \<noteq> CHR ''X''"
  by (auto simp: is_digit_def digit_val_def)

lemma digit_not_colon: "b \<le> 16 \<Longrightarrow> is_digit b c \<Longrightarrow> c \<noteq> CHR '':''"
  by (auto simp: is_digit_def digit_val_def)

lemma numeral_value_snoc: "numeral_value b (s @ [c]) = numeral_value b s * b + digit_val c"
  by (simp add: numeral_value_def)

text \<open>A string of digits of a base, with any number of leading zeros, and its value.\<close>

definition is_numeral :: "nat \<Rightarrow> string \<Rightarrow> bool" where
  "is_numeral b s \<longleftrightarrow> s \<noteq> [] \<and> list_all (is_digit b) s"

lemma is_numeral_word: "b \<le> 16 \<Longrightarrow> is_numeral b s \<Longrightarrow> is_word s"
  by (auto simp: is_numeral_def is_word_def list_all_iff digit_not_space)

lemma is_numeral_show_nat: "2 \<le> b \<Longrightarrow> b \<le> 16 \<Longrightarrow> is_numeral b (show_nat b n)"
proof (induction b n rule: show_nat.induct)
  case (1 b n)
  then show ?case
    by (subst show_nat.simps) (auto simp: is_numeral_def)
qed

lemma numeral_value_digit [simp]: "d < 16 \<Longrightarrow> numeral_value b [digit_char d] = d"
  by (simp add: numeral_value_def digit_val_digit_char)

lemma numeral_value_show_nat: "2 \<le> b \<Longrightarrow> b \<le> 16 \<Longrightarrow> numeral_value b (show_nat b n) = n"
proof (induction b n rule: show_nat.induct)
  case (1 b n)
  have "n mod b < 16" using 1(2,3) mod_less_divisor [of b n] by linarith
  with 1 show ?case
    by (subst show_nat.simps) (simp add: numeral_value_snoc digit_val_digit_char)
qed

lemma show_nat_inj: "2 \<le> b \<Longrightarrow> b \<le> 16 \<Longrightarrow> show_nat b m = show_nat b n \<Longrightarrow> m = n"
  by (metis numeral_value_show_nat)

lemma to_string_inj: "to_string i = to_string j \<Longrightarrow> i = j"
proof -
  have hd: "hd (show_nat 10 n) \<noteq> CHR ''-''" for n
    using is_numeral_show_nat [of 10 n] digit_not_sign [of 10 "hd (show_nat 10 n)"]
    by (cases "show_nat 10 n") (auto simp: is_numeral_def)
  assume eq: "to_string i = to_string j"
  have "(sint i < 0) = (sint j < 0)"
    using eq hd [of "nat (sint i)"] hd [of "nat (sint j)"]
    by (auto simp: to_string_def split: if_splits) (metis list.sel(1))+
  with eq have "nat \<bar>sint i\<bar> = nat \<bar>sint j\<bar>"
    by (auto simp: to_string_def split: if_splits dest!: show_nat_inj [rotated 2])
  with \<open>(sint i < 0) = (sint j < 0)\<close> have "sint i = sint j" by linarith
  then show ?thesis by (simp add: signed_word_eqI)
qed

section \<open>Loops in the state monad\<close>

text \<open>\<open>for (x : xs) body(x);\<close> over a list, in order.\<close>

primrec for_each :: "'a list \<Rightarrow> ('a \<Rightarrow> ('s, unit) state) \<Rightarrow> ('s, unit) state" where
  "for_each [] f = State_Monad.return ()"
| "for_each (x # xs) f = do { f x; for_each xs f }"

lemma for_each_append: "for_each (xs @ ys) f = do { for_each xs f; for_each ys f }"
  by (induction xs) simp_all

lemma for_each_invariant:
  assumes "\<And>x s. x \<in> set xs \<Longrightarrow> I s \<Longrightarrow> I (snd (run_state (f x) s))" and "I s"
  shows "I (snd (run_state (for_each xs f) s))"
  using assms
proof (induction xs arbitrary: s)
  case Nil
  then show ?case by simp
next
  case (Cons x xs)
  then show ?case by (cases "run_state (f x) s") (fastforce dest: Cons.prems(1))
qed

text \<open>Reading a component of the state and changing the state.\<close>

definition gets :: "('s \<Rightarrow> 'a) \<Rightarrow> ('s, 'a) state" where
  "gets f = State (\<lambda>s. (f s, s))"

definition modify :: "('s \<Rightarrow> 's) \<Rightarrow> ('s, unit) state" where
  "modify f = State (\<lambda>s. ((), f s))"

lemma run_state_gets [simp]: "run_state (gets f) s = (f s, s)"
  by (simp add: gets_def)

lemma run_state_modify [simp]: "run_state (modify f) s = ((), f s)"
  by (simp add: modify_def)

section \<open>Invariants of state operations\<close>

definition preserves :: "('s \<Rightarrow> bool) \<Rightarrow> ('s, 'a) state \<Rightarrow> bool" where
  "preserves I m \<longleftrightarrow> (\<forall>s. I s \<longrightarrow> I (snd (run_state m s)))"

named_theorems preserves_intros "operations that preserve an invariant"

lemma preservesD: "preserves I m \<Longrightarrow> run_state m s = (a, t) \<Longrightarrow> I s \<Longrightarrow> I t"
  unfolding preserves_def by (metis snd_conv)

lemma preserves_return [preserves_intros]: "preserves I (State_Monad.return x)"
  by (simp add: preserves_def)

lemma preserves_gets [preserves_intros]: "preserves I (gets f)"
  by (simp add: preserves_def)

lemma preserves_modify [preserves_intros]: "(\<And>s. I s \<Longrightarrow> I (f s)) \<Longrightarrow> preserves I (modify f)"
  by (simp add: preserves_def)

lemma preserves_bind [preserves_intros]:
  "preserves I m \<Longrightarrow> (\<And>x. preserves I (f x)) \<Longrightarrow> preserves I (State_Monad.bind m f)"
  by (auto simp: preserves_def case_prod_beta)

lemma preserves_if [preserves_intros]:
  "(b \<Longrightarrow> preserves I m) \<Longrightarrow> (\<not> b \<Longrightarrow> preserves I n) \<Longrightarrow> preserves I (if b then m else n)"
  by simp

lemma preserves_case_option [preserves_intros]:
  "(x = None \<Longrightarrow> preserves I m) \<Longrightarrow> (\<And>a. x = Some a \<Longrightarrow> preserves I (f a)) \<Longrightarrow>
     preserves I (case x of None \<Rightarrow> m | Some a \<Rightarrow> f a)"
  by (cases x) simp_all

section \<open>Finding in a filtered list\<close>

lemma find_SomeD: "find P xs = Some x \<Longrightarrow> P x \<and> x \<in> set xs"
  by (induction xs) (auto split: if_splits)

lemma find_filter_None: "find P xs = None \<Longrightarrow> find P (filter Q xs) = None"
  by (simp add: find_None_iff)

lemma find_filter_Some: "find P xs = Some x \<Longrightarrow> Q x \<Longrightarrow> find P (filter Q xs) = Some x"
  by (induction xs) (auto split: if_splits)

end
