(* ===== verification/Streams.thy ===== *)
theory Streams
  imports Prelude
begin

text \<open>
  The part of the C++ input streams the parsers use: a stream over a string with its
  \<open>eofbit\<close>, \<open>failbit\<close> and number base, formatted extraction into \<open>int\<close>, unsigned
  integers, \<open>char\<close> and \<open>std::string\<close>, the manipulators \<open>std::ws\<close>, \<open>std::hex\<close>, \<open>std::dec\<close>,
  and \<open>std::getline\<close> with a delimiter. An extraction returns the value the variable has
  afterwards when the variable was fresh before; the code looks at no variable after a
  failed extraction.
\<close>

declare dropWhile_eq_Nil_conv [simp del] takeWhile_eq_all_conv [simp del]

section \<open>State and flags\<close>

record istream =
  rest :: string          \<comment> \<open>the characters not extracted yet\<close>
  eofbit :: bool
  failbit :: bool
  basefield :: nat        \<comment> \<open>10 after \<open>std::dec\<close> and at the start, 16 after \<open>std::hex\<close>\<close>

type_synonym 'a extractor = "(istream, 'a) state"

definition istringstream :: "string \<Rightarrow> istream" where
  "istringstream s = \<lparr>rest = s, eofbit = False, failbit = False, basefield = 10\<rparr>"

definition good :: "istream \<Rightarrow> bool" where
  "good is \<longleftrightarrow> \<not> eofbit is \<and> \<not> failbit is"

section \<open>Formatted extraction\<close>

text \<open>
  The sentry of a formatted extraction: a stream that is not good fails; otherwise leading
  white space is skipped, and reaching the end sets both bits.
\<close>

definition sentry :: "bool extractor" where
  "sentry = State (\<lambda>is.
     if \<not> good is then (False, is\<lparr>failbit := True\<rparr>)
     else let r = dropWhile is_space (rest is) in
       if r = [] then (False, is\<lparr>rest := [], eofbit := True, failbit := True\<rparr>)
       else (True, is\<lparr>rest := r\<rparr>))"

definition extract_string :: "string extractor" where
  "extract_string = do {
     ok \<leftarrow> sentry;
     if \<not> ok then State_Monad.return []
     else State (\<lambda>is.
       let w = takeWhile (\<lambda>c. \<not> is_space c) (rest is);
           r = dropWhile (\<lambda>c. \<not> is_space c) (rest is)
       in (w, is\<lparr>rest := r, eofbit := (r = [])\<rparr>)) }"

definition extract_char :: "char extractor" where
  "extract_char = do {
     ok \<leftarrow> sentry;
     if \<not> ok then State_Monad.return (CHR 0x00)
     else State (\<lambda>is. (hd (rest is), is\<lparr>rest := tl (rest is)\<rparr>)) }"

text \<open>
  \<open>std::num_get\<close>: the field it accumulates is an optional sign, in base 16 an optional
  \<open>0x\<close>, and digits; the field is then converted whole or not at all.
\<close>

definition split_sign :: "string \<Rightarrow> string \<times> string" where
  "split_sign s = (case s of
     [] \<Rightarrow> ([], [])
   | c # cs \<Rightarrow> if c = CHR ''+'' \<or> c = CHR ''-'' then ([c], cs) else ([], s))"

definition skip_prefix :: "nat \<Rightarrow> string \<Rightarrow> string" where
  "skip_prefix b s =
     (if b = 16 \<and> (starts_with s ''0x'' \<or> starts_with s ''0X'') then drop 2 s else s)"

definition num_get :: "nat \<Rightarrow> string \<Rightarrow> int option \<times> string" where
  "num_get b s =
     (let (sign, s1) = split_sign s;
          s2 = skip_prefix b s1;
          ds = takeWhile (is_digit b) s2;
          r = dropWhile (is_digit b) s2;
          n = int (numeral_value b ds)
      in (if ds = [] then None else Some (if sign = ''-'' then - n else n), r))"

text \<open>
  Storing the converted number: out of range stores the nearest limit and fails. A number
  with a minus sign is stored in an unsigned variable modulo the width, as \<open>strtoull\<close> does.
\<close>

definition store_int :: "int option \<Rightarrow> c_int \<times> bool" where
  "store_int v = (case v of
     None \<Rightarrow> (0, False)
   | Some n \<Rightarrow>
       if n > 2147483647 then (2147483647, False)
       else if n < - 2147483648 then (2147483648, False)
       else (word_of_int n, True))"

definition store_word :: "int option \<Rightarrow> 'w::len word \<times> bool" where
  "store_word v = (case v of
     None \<Rightarrow> (0, False)
   | Some n \<Rightarrow> if \<bar>n\<bar> \<ge> 2 ^ LENGTH('w) then (- 1, False) else (word_of_int n, True))"

definition extract_num :: "(int option \<Rightarrow> ('w::zero) \<times> bool) \<Rightarrow> 'w extractor" where
  "extract_num store = do {
     ok \<leftarrow> sentry;
     if \<not> ok then State_Monad.return 0
     else State (\<lambda>is.
       let (v, r) = num_get (basefield is) (rest is);
           (w, stored) = store v
       in (w, is\<lparr>rest := r, eofbit := (r = []), failbit := \<not> stored\<rparr>)) }"

abbreviation extract_int :: "c_int extractor" where
  "extract_int \<equiv> extract_num store_int"

abbreviation extract_word :: "'w::len word extractor" where
  "extract_word \<equiv> extract_num store_word"

section \<open>Manipulators and getline\<close>

definition set_base :: "nat \<Rightarrow> unit extractor" where
  "set_base b = modify (basefield_update (\<lambda>_. b))"

text \<open>\<open>std::ws\<close> skips white space; it does not fail at the end of a good stream.\<close>

definition ws :: "unit extractor" where
  "ws = modify (\<lambda>is.
     if \<not> good is then is\<lparr>failbit := True\<rparr>
     else let r = dropWhile is_space (rest is) in is\<lparr>rest := r, eofbit := (r = [])\<rparr>)"

definition getline :: "char \<Rightarrow> string extractor" where
  "getline delim = State (\<lambda>is.
     if \<not> good is then ([], is\<lparr>failbit := True\<rparr>)
     else let tok = takeWhile (\<lambda>c. c \<noteq> delim) (rest is) in
       case dropWhile (\<lambda>c. c \<noteq> delim) (rest is) of
         [] \<Rightarrow> (tok, is\<lparr>rest := [], eofbit := True, failbit := (tok = [])\<rparr>)
       | _ # r \<Rightarrow> (tok, is\<lparr>rest := r\<rparr>))"

text \<open>\<open>while (std::getline(is, token, delim)) use(token);\<close>: the tokens in order.\<close>

function getline_loop :: "char \<Rightarrow> istream \<Rightarrow> string list" where
  "getline_loop delim is =
     (case run_state (getline delim) is of
        (tok, is') \<Rightarrow> if failbit is' then [] else tok # getline_loop delim is')"
  by pat_completeness auto
termination
proof (relation "measure (\<lambda>(delim, is). if good is then Suc (length (rest is)) else 0)")
  fix delim st tok st'
  assume "(tok, st') = run_state (getline delim) st" and "\<not> failbit st'"
  then show "((delim, st'), (delim, st)) \<in>
      measure (\<lambda>(delim, is). if good is then Suc (length (rest is)) else 0)"
    using length_dropWhile_le [of "\<lambda>c. c \<noteq> delim" "rest st"]
    by (auto simp: getline_def good_def Let_def split: if_splits list.splits)
qed simp

declare getline_loop.simps [simp del]

section \<open>What the operations do\<close>

lemma good_istringstream [simp]: "good (istringstream s)"
  by (simp add: good_def istringstream_def)

lemma rest_istringstream [simp]: "rest (istringstream s) = s"
  by (simp add: istringstream_def)

lemma basefield_istringstream [simp]: "basefield (istringstream s) = 10"
  by (simp add: istringstream_def)

lemma sentry_bad [run_simps]: "\<not> good st \<Longrightarrow> run_state sentry st = (False, st\<lparr>failbit := True\<rparr>)"
  by (simp add: sentry_def)

lemma sentry_good:
  assumes "good st" and "rest st = sp @ t" and "list_all is_space sp"
    and "t \<noteq> []" and "\<not> is_space (hd t)"
  shows "run_state sentry st = (True, st\<lparr>rest := t\<rparr>)"
  using assms by (simp add: sentry_def dropWhile_stop)

lemma extract_string_bad [run_simps]:
  "\<not> good st \<Longrightarrow> run_state extract_string st = ([], st\<lparr>failbit := True\<rparr>)"
  by (simp add: extract_string_def sentry_bad)

lemma extract_string_word:
  assumes "good st" and "rest st = sp @ w @ t" and "list_all is_space sp"
    and "is_word w" and "t = [] \<or> is_space (hd t)"
  shows "run_state extract_string st = (w, st\<lparr>rest := t, eofbit := (t = [])\<rparr>)"
proof -
  have "run_state sentry st = (True, st\<lparr>rest := w @ t\<rparr>)"
    using assms by (intro sentry_good) (simp_all add: hd_append)
  moreover have "takeWhile (\<lambda>c. \<not> is_space c) (w @ t) = w"
    and "dropWhile (\<lambda>c. \<not> is_space c) (w @ t) = t"
    using assms(4,5) by (simp_all add: is_word_def takeWhile_stop dropWhile_stop)
  ultimately show ?thesis by (simp add: extract_string_def Let_def)
qed

lemma extract_char_next:
  assumes "good st" and "rest st = sp @ c # t" and "list_all is_space sp" and "\<not> is_space c"
  shows "run_state extract_char st = (c, st\<lparr>rest := t\<rparr>)"
proof -
  have "run_state sentry st = (True, st\<lparr>rest := c # t\<rparr>)"
    using assms by (intro sentry_good) simp_all
  then show ?thesis by (simp add: extract_char_def)
qed

text \<open>
  A numeral in the stream's base, followed by a character that ends it, is read as its
  value; both stores accept it when it is in range.
\<close>

definition ends_numeral :: "nat \<Rightarrow> string \<Rightarrow> bool" where
  "ends_numeral b t \<longleftrightarrow>
     t = [] \<or> \<not> is_digit b (hd t) \<and> hd t \<noteq> CHR ''x'' \<and> hd t \<noteq> CHR ''X''"

lemma ends_numeral_space: "b \<le> 16 \<Longrightarrow> is_space c \<Longrightarrow> ends_numeral b (c # t)"
  using digit_not_space [of b c] by (auto simp: ends_numeral_def is_space_def)

lemma split_sign_numeral: "b \<le> 16 \<Longrightarrow> is_numeral b ds \<Longrightarrow> split_sign (ds @ t) = ([], ds @ t)"
  using digit_not_sign [of b "hd ds"]
  by (cases ds) (auto simp: split_sign_def is_numeral_def)

lemma skip_prefix_numeral:
  assumes "b \<le> 16" and "is_numeral b ds" and "ends_numeral b t"
  shows "skip_prefix b (ds @ t) = ds @ t"
proof -
  have "c \<noteq> CHR ''x'' \<and> c \<noteq> CHR ''X''" if "c \<in> set ds \<or> t \<noteq> [] \<and> c = hd t" for c
    using assms that digit_not_x by (auto simp: is_numeral_def ends_numeral_def list_all_iff)
  then show ?thesis
    using assms(2)
    by (cases ds rule: list.exhaust; cases "tl ds"; cases t)
      (auto simp: skip_prefix_def is_numeral_def)
qed

lemma num_get_numeral:
  assumes "b \<le> 16" and "is_numeral b ds" and "ends_numeral b t"
  shows "num_get b (ds @ t) = (Some (int (numeral_value b ds)), t)"
proof -
  have "takeWhile (is_digit b) (ds @ t) = ds" and "dropWhile (is_digit b) (ds @ t) = t"
    using assms(2,3)
    by (auto simp: is_numeral_def ends_numeral_def intro!: takeWhile_stop dropWhile_stop)
  with assms show ?thesis
    by (auto simp: num_get_def split_sign_numeral skip_prefix_numeral is_numeral_def)
qed

lemma extract_num_numeral:
  assumes "good st" and "rest st = sp @ ds @ t" and "list_all is_space sp"
    and "basefield st \<le> 16" and "is_numeral (basefield st) ds"
    and "ends_numeral (basefield st) t"
    and "store (Some (int (numeral_value (basefield st) ds))) = (w, True)"
  shows "run_state (extract_num store) st = (w, st\<lparr>rest := t, eofbit := (t = [])\<rparr>)"
proof -
  have "is_word ds" using assms(4,5) by (rule is_numeral_word)
  then have "run_state sentry st = (True, st\<lparr>rest := ds @ t\<rparr>)"
    using assms(1-3) by (intro sentry_good) (simp_all add: hd_append)
  with assms show ?thesis
    by (simp add: extract_num_def num_get_numeral good_def)
qed

lemma store_int_in_range: "n \<le> 2147483647 \<Longrightarrow> store_int (Some (int n)) = (word_of_nat n, True)"
  by (simp add: store_int_def)

lemma store_word_in_range: "n < 2 ^ LENGTH('w) \<Longrightarrow> store_word (Some (int n)) = (word_of_nat n :: 'w::len word, True)"
  by (simp add: store_word_def not_le)

section \<open>Lines and separated fields\<close>

text \<open>What a loop over \<open>std::getline\<close> sees: a trailing separator adds no empty field.\<close>

function split_on :: "char \<Rightarrow> string \<Rightarrow> string list" where
  "split_on d s =
     (if s = [] then []
      else takeWhile (\<lambda>c. c \<noteq> d) s # split_on d (tl (dropWhile (\<lambda>c. c \<noteq> d) s)))"
  by pat_completeness auto
termination
proof (relation "measure (\<lambda>(d, s). length s)")
  fix d :: char and s :: string
  assume "s \<noteq> []"
  then show "((d, tl (dropWhile (\<lambda>c. c \<noteq> d) s)), (d, s)) \<in> measure (\<lambda>(d, s). length s)"
    using length_dropWhile_le [of "\<lambda>c. c \<noteq> d" s] by (cases s) auto
qed simp

declare split_on.simps [simp del]

lemma split_on_Nil [simp]: "split_on d [] = []"
  by (simp add: split_on.simps)

lemma getline_loop_split: "good st \<Longrightarrow> getline_loop d st = split_on d (rest st)"
proof (induction d st rule: getline_loop.induct)
  case (1 d st)
  show ?case
  proof (cases "dropWhile (\<lambda>c. c \<noteq> d) (rest st)")
    case Nil
    let ?st' = "st\<lparr>rest := [], eofbit := True, failbit := rest st = []\<rparr>"
    have all: "takeWhile (\<lambda>c. c \<noteq> d) (rest st) = rest st"
      using Nil by (metis append_Nil2 takeWhile_dropWhile_id)
    then have "run_state (getline d) st = (rest st, ?st')"
      using "1.prems" Nil by (simp add: getline_def Let_def)
    moreover have "getline_loop d ?st' = []"
      by (subst getline_loop.simps) (simp add: getline_def good_def)
    moreover have "rest st \<noteq> [] \<Longrightarrow> split_on d (rest st) = [rest st]"
      using Nil all by (subst split_on.simps) simp
    ultimately show ?thesis
      by (subst getline_loop.simps) auto
  next
    case (Cons c r)
    then have "run_state (getline d) st = (takeWhile (\<lambda>c. c \<noteq> d) (rest st), st\<lparr>rest := r\<rparr>)"
      using "1.prems" by (simp add: getline_def)
    moreover have "good (st\<lparr>rest := r\<rparr>)" and "\<not> failbit (st\<lparr>rest := r\<rparr>)"
      using "1.prems" by (simp_all add: good_def)
    moreover have "rest st \<noteq> []" using Cons by auto
    ultimately show ?thesis
      using "1.IH" Cons
      by (subst getline_loop.simps, subst split_on.simps) simp
  qed
qed

lemma split_on_field: "d \<notin> set l \<Longrightarrow> split_on d (l @ d # s) = l # split_on d s"
proof -
  assume "d \<notin> set l"
  then have "list_all (\<lambda>c. c \<noteq> d) l" by (auto simp: list_all_iff)
  then show ?thesis
    by (subst split_on.simps) (simp add: takeWhile_stop dropWhile_stop)
qed

lemma split_on_last: "d \<notin> set l \<Longrightarrow> l \<noteq> [] \<Longrightarrow> split_on d l = [l]"
proof -
  assume "d \<notin> set l" and "l \<noteq> []"
  then have "list_all (\<lambda>c. c \<noteq> d) l" by (auto simp: list_all_iff)
  with \<open>l \<noteq> []\<close> show ?thesis
    using takeWhile_stop [of "\<lambda>c. c \<noteq> d" l "[]"] dropWhile_stop [of "\<lambda>c. c \<noteq> d" l "[]"]
    by (subst split_on.simps) simp
qed

lemma split_on_lines:
  "list_all (\<lambda>l. d \<notin> set l) ls \<Longrightarrow> split_on d (concat (map (\<lambda>l. l @ [d]) ls)) = ls"
  by (induction ls) (simp_all add: split_on_field)

end
