(* ===== verification/Proc_File.thy ===== *)
theory Proc_File
  imports Streams
begin

text \<open>
  The contract the two \<open>/proc\<close> parsers share: a file is a sequence of lines, each line is
  parsed on its own, a line that does not parse is skipped, and the entries keep the order
  of the lines. \<open>Map_Parser\<close> and \<open>Mountinfo_Parser\<close> interpret the locale on their parsers.
\<close>

section \<open>Files parsed line by line\<close>

locale line_file =
  fixes parse_line :: "string \<Rightarrow> 'e option"
    and parse :: "string \<Rightarrow> 'e list"
  assumes parse_split: "parse s = List.map_filter parse_line (split_on newline s)"
begin

lemma parse_Nil [simp]: "parse [] = []"
  by (simp add: parse_split)

lemma parse_line_step:
  "newline \<notin> set l \<Longrightarrow>
     parse (l @ newline # s) = (case parse_line l of None \<Rightarrow> parse s | Some e \<Rightarrow> e # parse s)"
  by (simp add: parse_split split_on_field map_filter_simps split: option.split)

lemma parse_skips:
  "newline \<notin> set l \<Longrightarrow> parse_line l = None \<Longrightarrow> parse (l @ newline # s) = parse s"
  by (simp add: parse_line_step)

lemma parse_unterminated:
  "newline \<notin> set l \<Longrightarrow> l \<noteq> [] \<Longrightarrow>
     parse l = (case parse_line l of None \<Rightarrow> [] | Some e \<Rightarrow> [e])"
  by (simp add: parse_split split_on_last map_filter_simps split: option.split)

lemma parse_rendered:
  assumes "\<And>x. x \<in> set xs \<Longrightarrow> parse_line (render x) = Some (denotes x)"
    and "\<And>x. x \<in> set xs \<Longrightarrow> newline \<notin> set (render x)"
  shows "parse (concat (map (\<lambda>x. render x @ [newline]) xs)) = map denotes xs"
  using assms by (induction xs) (simp_all add: parse_line_step)

lemma parse_complete:
  "e \<in> set (parse s) \<longleftrightarrow> (\<exists>l \<in> set (split_on newline s). parse_line l = Some e)"
  by (force simp: parse_split List.map_filter_def)

lemma parse_length: "length (parse s) \<le> length (split_on newline s)"
  by (simp add: parse_split List.map_filter_def)

end

section \<open>What the kernel prints\<close>

text \<open>
  \<open>%0<w>x\<close> and \<open>%d\<close>: digits of a base, padded with zeros to a width. The round-trip
  properties of the parsers are stated over lines built from these.
\<close>

definition padded :: "nat \<Rightarrow> nat \<Rightarrow> nat \<Rightarrow> string" where
  "padded b w n = replicate (w - length (show_nat b n)) (CHR ''0'') @ show_nat b n"

lemma numeral_value_zeros [simp]:
  "numeral_value b (replicate k (CHR ''0'') @ s) = numeral_value b s"
proof -
  have "foldl (\<lambda>a c. a * b + digit_val c) 0 (replicate k (CHR ''0'')) = 0"
    by (induction k) (simp_all add: digit_val_def)
  then show ?thesis by (simp add: numeral_value_def)
qed

lemma is_numeral_padded: "2 \<le> b \<Longrightarrow> b \<le> 16 \<Longrightarrow> is_numeral b (padded b w n)"
  using is_numeral_show_nat [of b n]
  by (auto simp: padded_def is_numeral_def list_all_iff is_digit_def digit_val_def)

lemma numeral_value_padded: "2 \<le> b \<Longrightarrow> b \<le> 16 \<Longrightarrow> numeral_value b (padded b w n) = n"
  by (simp add: padded_def numeral_value_show_nat)

lemmas padded_numeral = is_numeral_padded numeral_value_padded

lemma padded_no_newline: "2 \<le> b \<Longrightarrow> b \<le> 16 \<Longrightarrow> newline \<notin> set (padded b w n)"
  using is_word_no_newline is_numeral_word is_numeral_padded by blast

section \<open>Reading printed fields\<close>

text \<open>
  The extraction lemmas on streams written out, with at most one blank in front: in this
  form the simplifier runs a chain of extractions over a printed line.
\<close>

abbreviation stream :: "nat \<Rightarrow> string \<Rightarrow> istream" where
  "stream b s \<equiv> \<lparr>rest = s, eofbit = False, failbit = False, basefield = b\<rparr>"

lemma good_stream [simp]: "good (stream b s)"
  by (simp add: good_def)

lemma run_nat [run_simps]:
  assumes "2 \<le> b" and "b \<le> 16" and "ends_numeral b t" and "n < 2 ^ LENGTH('w)"
  shows "run_state extract_word (stream b (padded b w n @ t)) =
           (word_of_nat n :: 'w::len word, (stream b t)\<lparr>eofbit := (t = [])\<rparr>)"
    and "run_state extract_word (stream b (CHR '' '' # padded b w n @ t)) =
           (word_of_nat n :: 'w::len word, (stream b t)\<lparr>eofbit := (t = [])\<rparr>)"
proof -
  note num = extract_num_numeral [where ds = "padded b w n" and t = t and w = "word_of_nat n :: 'w word"]
  have store: "store_word (Some (int n)) = (word_of_nat n :: 'w word, True)"
    using assms(4) by (rule store_word_in_range)
  show "run_state extract_word (stream b (padded b w n @ t)) =
      (word_of_nat n :: 'w word, (stream b t)\<lparr>eofbit := (t = [])\<rparr>)"
    using assms store by (subst num [where sp = "[]"]) (simp_all add: padded_numeral)
  show "run_state extract_word (stream b (CHR '' '' # padded b w n @ t)) =
      (word_of_nat n :: 'w word, (stream b t)\<lparr>eofbit := (t = [])\<rparr>)"
    using assms store by (subst num [where sp = "'' ''"]) (simp_all add: padded_numeral)
qed

lemma run_int [run_simps]:
  assumes "2 \<le> b" and "b \<le> 16" and "ends_numeral b t" and "n < 2 ^ 31"
  shows "run_state extract_int (stream b (padded b w n @ t)) =
           (word_of_nat n, (stream b t)\<lparr>eofbit := (t = [])\<rparr>)"
    and "run_state extract_int (stream b (CHR '' '' # padded b w n @ t)) =
           (word_of_nat n, (stream b t)\<lparr>eofbit := (t = [])\<rparr>)"
proof -
  note num = extract_num_numeral [where ds = "padded b w n" and t = t and w = "word_of_nat n"]
  have store: "store_int (Some (int n)) = (word_of_nat n, True)"
    using assms(4) by (simp add: store_int_in_range)
  show "run_state extract_int (stream b (padded b w n @ t)) =
      (word_of_nat n, (stream b t)\<lparr>eofbit := (t = [])\<rparr>)"
    using assms store by (subst num [where sp = "[]"]) (simp_all add: padded_numeral)
  show "run_state extract_int (stream b (CHR '' '' # padded b w n @ t)) =
      (word_of_nat n, (stream b t)\<lparr>eofbit := (t = [])\<rparr>)"
    using assms store by (subst num [where sp = "'' ''"]) (simp_all add: padded_numeral)
qed

lemma run_word [run_simps]:
  assumes "is_word w" and "t = [] \<or> is_space (hd t)"
  shows "run_state extract_string (stream b (CHR '' '' # w @ t)) =
           (w, (stream b t)\<lparr>eofbit := (t = [])\<rparr>)"
  using assms extract_string_word [of "stream b (CHR '' '' # w @ t)" "'' ''" w t]
  by simp

lemma run_last_word [run_simps]:
  assumes "is_word w"
  shows "run_state extract_string (stream b (CHR '' '' # w)) = (w, (stream b [])\<lparr>eofbit := True\<rparr>)"
    and "run_state extract_string (stream b (CHR '' '' # CHR '' '' # w)) =
           (w, (stream b [])\<lparr>eofbit := True\<rparr>)"
  using assms extract_string_word [of "stream b (CHR '' '' # w)" "'' ''" w "[]"]
    extract_string_word [of "stream b (CHR '' '' # CHR '' '' # w)" "''  ''" w "[]"]
  by simp_all

lemma run_word_eof [run_simps]:
  "run_state extract_string \<lparr>rest = s, eofbit = True, failbit = f, basefield = b\<rparr> =
     ([], \<lparr>rest = s, eofbit = True, failbit = True, basefield = b\<rparr>)"
  by (simp add: extract_string_bad good_def)

lemma run_char [run_simps]:
  "\<not> is_space c \<Longrightarrow> run_state extract_char (stream b (c # t)) = (c, stream b t)"
  using extract_char_next [of "stream b (c # t)" "[]" c t] by simp

lemma ends_numeral_blank [simp]: "b \<le> 16 \<Longrightarrow> ends_numeral b (CHR '' '' # t)"
  by (simp add: ends_numeral_space)

lemma ends_numeral_sep [simp]:
  "b \<le> 16 \<Longrightarrow> ends_numeral b (CHR ''-'' # t)" "b \<le> 16 \<Longrightarrow> ends_numeral b (CHR '':'' # t)"
  by (auto simp: ends_numeral_def is_digit_def digit_val_def)

end
