(* ===== verification/Map_Parser.thy ===== *)
theory Map_Parser
  imports Proc_File
begin

text \<open>
  \<open>map_parser.cpp\<close>: the entries of \<open>/proc/self/maps\<close>. \<open>makedev\<close> is a macro of the C
  library and is a parameter \<open>mk\<close>. The module is built for 32-bit and for 64-bit ABIs: \<open>uintptr_t\<close>,
  \<open>dev_t\<close> and \<open>ino_t\<close> have the width \<open>'w\<close> of a pointer there; the type of an entry has them as a parameter. The
  cache of \<open>parseSelfMaps\<close> is in \<open>Proc_Self\<close>.
\<close>

section \<open>Entries and lines\<close>

record 'p map_entry =
  address_start :: 'p
  address_end :: 'p
  offset :: 'p
  perms :: string
  pathname :: string
  map_device :: 'p
  inode :: 'p

definition make_map_entry ::
    "'p \<Rightarrow> 'p \<Rightarrow> 'p \<Rightarrow> string \<Rightarrow> string \<Rightarrow> 'p \<Rightarrow> 'p \<Rightarrow> 'p map_entry" where
  "make_map_entry start stop off prms path dev ino =
     \<lparr>address_start = start, address_end = stop, offset = off, perms = prms, pathname = path,
      map_device = dev, inode = ino\<rparr>"

definition parse_map_line :: "(c_int \<Rightarrow> c_int \<Rightarrow> 'w::len word) \<Rightarrow> string \<Rightarrow> 'w word map_entry option" where
  "parse_map_line mk line = fst (run_state (do {
     set_base 16;
     address_start \<leftarrow> extract_word;
     dummy_char \<leftarrow> extract_char;
     address_end \<leftarrow> extract_word;
     perms \<leftarrow> extract_string;
     offset \<leftarrow> extract_word;
     dev_major \<leftarrow> extract_int;
     dummy_char \<leftarrow> extract_char;
     dev_minor \<leftarrow> extract_int;
     set_base 10;
     inode \<leftarrow> extract_word;
     failed \<leftarrow> gets failbit;
     if failed then State_Monad.return None
     else do {
       ws;
       pathname \<leftarrow> getline newline;
       State_Monad.return (Some (make_map_entry address_start address_end offset perms pathname
         (mk dev_major dev_minor) inode)) } })
     (istringstream line))"

primrec parse_map_lines :: "(c_int \<Rightarrow> c_int \<Rightarrow> 'w::len word) \<Rightarrow> string list \<Rightarrow> 'w word map_entry list" where
  "parse_map_lines mk [] = []"
| "parse_map_lines mk (line # lines) =
     (case parse_map_line mk line of
        None \<Rightarrow> parse_map_lines mk lines
      | Some e \<Rightarrow> e # parse_map_lines mk lines)"

definition parse_maps :: "(c_int \<Rightarrow> c_int \<Rightarrow> 'w::len word) \<Rightarrow> string \<Rightarrow> 'w word map_entry list" where
  "parse_maps mk content = parse_map_lines mk (getline_loop newline (istringstream content))"

lemma parse_map_lines_filter: "parse_map_lines mk ls = List.map_filter (parse_map_line mk) ls"
  by (induction ls) (simp_all add: map_filter_simps split: option.split)

interpretation maps_file: line_file "parse_map_line mk" "parse_maps mk" for mk
  by unfold_locales (simp add: parse_maps_def parse_map_lines_filter getline_loop_split)

section \<open>The line format\<close>

text \<open>
  \<open>proc(5)\<close>: start and end as 8 hex digits or more, the permissions, the offset, the device
  as \<open>%02x:%02x\<close>, the inode in decimal, and after blanks the path, which may be missing. The kernel
  prints numbers of 64 bits to a 32-bit process as well.
\<close>

record map_line =
  ln_start :: nat
  ln_end :: nat
  ln_perms :: string
  ln_offset :: nat
  ln_major :: nat
  ln_minor :: nat
  ln_inode :: nat
  ln_blanks :: nat
  ln_path :: string

definition render_map_line :: "map_line \<Rightarrow> string" where
  "render_map_line m =
     padded 16 8 (ln_start m) @ ''-'' @ padded 16 8 (ln_end m) @ '' ''
     @ ln_perms m @ '' '' @ padded 16 8 (ln_offset m) @ '' ''
     @ padded 16 2 (ln_major m) @ '':'' @ padded 16 2 (ln_minor m) @ '' ''
     @ padded 10 1 (ln_inode m) @ '' ''
     @ replicate (ln_blanks m) (CHR '' '') @ ln_path m"

definition wf_map_line :: "map_line \<Rightarrow> bool" where
  "wf_map_line m \<longleftrightarrow>
     is_word (ln_perms m) \<and> newline \<notin> set (ln_path m) \<and> (ln_path m \<noteq> [] \<longrightarrow> \<not> is_space (hd (ln_path m)))"

text \<open>The line's numbers fit their variables in a process with pointers of \<open>w\<close> bits.\<close>

definition map_line_fits :: "nat \<Rightarrow> map_line \<Rightarrow> bool" where
  "map_line_fits w m \<longleftrightarrow> list_all (\<lambda>n. n < 2 ^ w) [ln_start m, ln_end m, ln_offset m, ln_inode m]
     \<and> ln_major m < 2 ^ 31 \<and> ln_minor m < 2 ^ 31"

definition map_line_entry :: "(c_int \<Rightarrow> c_int \<Rightarrow> 'w::len word) \<Rightarrow> map_line \<Rightarrow> 'w word map_entry" where
  "map_line_entry mk m = make_map_entry (of_nat (ln_start m)) (of_nat (ln_end m)) (of_nat (ln_offset m))
     (ln_perms m) (ln_path m) (mk (of_nat (ln_major m)) (of_nat (ln_minor m))) (of_nat (ln_inode m))"

lemma run_ws_blanks:
  assumes "p \<noteq> [] \<longrightarrow> \<not> is_space (hd p)"
  shows "run_state ws (stream b (CHR '' '' # replicate k (CHR '' '') @ p)) =
           ((), (stream b p)\<lparr>eofbit := (p = [])\<rparr>)"
proof -
  have "dropWhile is_space ((CHR '' '' # replicate k (CHR '' '')) @ p) = p"
    using assms by (intro dropWhile_stop) (auto simp: list_all_iff)
  then show ?thesis by (simp add: ws_def good_def)
qed

lemma run_getline_path:
  assumes "newline \<notin> set p"
  shows "run_state (getline newline) ((stream b p)\<lparr>eofbit := (p = [])\<rparr>) =
           (p, \<lparr>rest = [], eofbit = True, failbit = (p = []), basefield = b\<rparr>)"
proof -
  have "list_all (\<lambda>c. c \<noteq> newline) p" using assms by (auto simp: list_all_iff)
  then have "takeWhile (\<lambda>c. c \<noteq> newline) p = p" and "dropWhile (\<lambda>c. c \<noteq> newline) p = []"
    using takeWhile_stop [of _ p "[]"] dropWhile_stop [of _ p "[]"] by simp_all
  then show ?thesis by (simp add: getline_def good_def Let_def)
qed

lemma parse_render_map_line:
  fixes mk :: "c_int \<Rightarrow> c_int \<Rightarrow> 'w::len word"
  assumes "wf_map_line m" and "map_line_fits LENGTH('w) m"
  shows "parse_map_line mk (render_map_line m) = Some (map_line_entry mk m)"
  using assms run_getline_path [of "ln_path m" 10]
  by (simp add: parse_map_line_def render_map_line_def wf_map_line_def map_line_fits_def map_line_entry_def
      istringstream_def set_base_def run_simps run_ws_blanks)

section \<open>Whole files\<close>

definition render_maps :: "map_line list \<Rightarrow> string" where
  "render_maps ms = concat (map (\<lambda>m. render_map_line m @ [newline]) ms)"

lemma render_map_line_no_newline: "wf_map_line m \<Longrightarrow> newline \<notin> set (render_map_line m)"
  by (auto simp: render_map_line_def wf_map_line_def padded_no_newline is_word_no_newline)

lemma parse_render_maps:
  fixes mk :: "c_int \<Rightarrow> c_int \<Rightarrow> 'w::len word"
  assumes "list_all wf_map_line ms" and "list_all (map_line_fits LENGTH('w)) ms"
  shows "parse_maps mk (render_maps ms) = map (map_line_entry mk) ms"
  unfolding render_maps_def using assms
  by (intro maps_file.parse_rendered)
    (auto simp: list_all_iff parse_render_map_line render_map_line_no_newline)

section \<open>Properties\<close>

text \<open>
  Reading back what the kernel prints. A maps file of well-formed lines, with numbers in
  hexadecimal that fit in a pointer, paths with blanks in them and lines without a path included, is
  read as its entries, in order.
\<close>

theorem maps_roundtrip:
  fixes mk :: "c_int \<Rightarrow> c_int \<Rightarrow> 'w::len word"
  assumes "list_all wf_map_line ms" and "list_all (map_line_fits LENGTH('w)) ms"
  shows "parse_maps mk (render_maps ms) = map (map_line_entry mk) ms"
  using assms by (rule parse_render_maps)

definition sample_maps :: "map_line list" where
  "sample_maps =
     [\<lparr>ln_start = 0x12c00000, ln_end = 0x2ac00000, ln_perms = ''rw-p'', ln_offset = 0, ln_major = 0,
        ln_minor = 0, ln_inode = 0, ln_blanks = 0, ln_path = []\<rparr>,
      \<lparr>ln_start = 0x7b2c4e1000, ln_end = 0x7b2c4e3000, ln_perms = ''r--p'', ln_offset = 0, ln_major = 7,
        ln_minor = 88, ln_inode = 1021, ln_blanks = 4, ln_path = ''/system/lib64/libnativebridge.so''\<rparr>,
      \<lparr>ln_start = 0x7b30000000, ln_end = 0x7b30100000, ln_perms = ''r-xp'', ln_offset = 0x80000,
        ln_major = 7, ln_minor = 88, ln_inode = 1022, ln_blanks = 4,
        ln_path = ''/system/lib64/libandroid_runtime.so''\<rparr>]"

lemma sample_maps_wf: "list_all wf_map_line sample_maps"
  by (simp add: sample_maps_def wf_map_line_def is_word_def is_space_def)

lemma sample_maps_fit: "list_all (map_line_fits 64) sample_maps"
  by (simp add: sample_maps_def map_line_fits_def)

theorem maps_roundtrip_witness:
  "map (\<lambda>m. (address_start m, map_device m)) (parse_maps (\<lambda>a b. ucast a * 256 + ucast b :: dev_t) (render_maps sample_maps)) =
     [(0x12c00000, 0), (0x7b2c4e1000, 0x758), (0x7b30000000, 0x758)]"
  by (subst maps_roundtrip [OF sample_maps_wf])
    (simp_all add: sample_maps_def map_line_fits_def map_line_entry_def make_map_entry_def)

text \<open>
  A line that does not parse is dropped and changes nothing in what is read after it;
  the line parser starts afresh on every line.
\<close>

theorem bad_map_line_dropped:
  assumes "newline \<notin> set line" and "parse_map_line mk line = None"
  shows "parse_maps mk (line @ newline # following) = parse_maps mk following"
  using assms by (rule maps_file.parse_skips)

theorem bad_map_line_dropped_witness:
  "parse_maps (\<lambda>a b. 0 :: dev_t) (''junk'' @ newline # render_maps sample_maps) =
     parse_maps (\<lambda>a b. 0 :: dev_t) (render_maps sample_maps)"
proof -
  have "parse_map_line (\<lambda>a b. 0 :: dev_t) ''junk'' = None" by code_simp
  then show ?thesis by (intro bad_map_line_dropped) simp_all
qed

end
