(* ===== verification/Mountinfo_Parser.thy ===== *)
theory Mountinfo_Parser
  imports Proc_File
begin

text \<open>
  \<open>mountinfo_parser.cpp\<close>: the option lists, the entries of \<open>/proc/self/mountinfo\<close> and
  \<open>mountinfo_root_resolver\<close>. An unordered map of strings is a partial function; \<open>makedev\<close>
  is a parameter \<open>mk\<close>. The cache of \<open>parseSelfMountinfo\<close> is in \<open>Proc_Self\<close>.
\<close>

section \<open>Option lists\<close>

type_synonym options = "string \<rightharpoonup> string"

text \<open>
  The body of the loop of \<open>parseMountOptions\<close> for one token: the key up to the first \<open>=\<close>,
  what is left as the value. An empty token has no key.
\<close>

definition parse_option :: "options \<Rightarrow> string \<Rightarrow> options" where
  "parse_option ret token =
     (let (key, st) = run_state (getline (CHR ''='')) (istringstream token) in
      if failbit st then ret
      else let (val, st') = run_state (getline newline) st in ret(key \<mapsto> val))"

definition parseMountOptions :: "string \<Rightarrow> options" where
  "parseMountOptions input =
     foldl parse_option Map.empty (getline_loop (CHR '','') (istringstream input))"

section \<open>Entries\<close>

record mountinfo_entry =
  mount_id :: c_int
  parent_id :: c_int
  device :: dev_t
  root :: string
  mount_point :: string
  optional_fields :: string
  filesystem_type :: string
  mount_source :: string
  mount_options :: options
  super_options :: options

text \<open>The constructor parses the two option lists.\<close>

definition make_entry :: "c_int \<Rightarrow> c_int \<Rightarrow> dev_t \<Rightarrow> string \<Rightarrow> string \<Rightarrow> string \<Rightarrow> string \<Rightarrow>
    string \<Rightarrow> string \<Rightarrow> string \<Rightarrow> mountinfo_entry" where
  "make_entry mid pid dev rt mp mopts optf fstype src sopts =
     \<lparr>mount_id = mid, parent_id = pid, device = dev, root = rt, mount_point = mp,
      optional_fields = optf, filesystem_type = fstype, mount_source = src,
      mount_options = parseMountOptions mopts, super_options = parseMountOptions sopts\<rparr>"

section \<open>Lines\<close>

text \<open>\<open>while (iss >> field && field != "-") optional_fields += " " + field;\<close>\<close>

function optional_loop :: "string \<Rightarrow> istream \<Rightarrow> string \<times> istream" where
  "optional_loop acc st =
     (case run_state extract_string st of
        (field, st') \<Rightarrow>
          if failbit st' \<or> field = ''-'' then (acc, st')
          else optional_loop (acc @ '' '' @ field) st')"
  by pat_completeness auto
termination
proof (relation "measure (\<lambda>(acc, st). length (rest st))")
  fix acc st field st'
  assume step: "(field, st') = run_state extract_string st"
    and ok: "\<not> (failbit st' \<or> field = ''-'')"
  define r where "r = dropWhile is_space (rest st)"
  from step ok have "r \<noteq> []" and "rest st' = dropWhile (\<lambda>c. \<not> is_space c) r"
    by (auto simp: extract_string_def sentry_def Let_def r_def split: if_splits)
  moreover have "\<not> is_space (hd r)"
    using \<open>r \<noteq> []\<close> unfolding r_def by (rule hd_dropWhile)
  ultimately have "length (rest st') < length r"
    using length_dropWhile_le [of "\<lambda>c. \<not> is_space c" "tl r"] by (cases r) auto
  then show "((acc @ '' '' @ field, st'), (acc, st)) \<in> measure (\<lambda>(acc, st). length (rest st))"
    using length_dropWhile_le [of is_space "rest st"] by (simp add: r_def)
qed simp

declare optional_loop.simps [simp del]

definition parse_mountinfo_line ::
    "(c_int \<Rightarrow> c_int \<Rightarrow> dev_t) \<Rightarrow> string \<Rightarrow> mountinfo_entry option" where
  "parse_mountinfo_line mk line = fst (run_state (do {
     mount_id \<leftarrow> extract_int;
     parent_id \<leftarrow> extract_int;
     major \<leftarrow> extract_int;
     colon \<leftarrow> extract_char;
     minor \<leftarrow> extract_int;
     root \<leftarrow> extract_string;
     mount_point \<leftarrow> extract_string;
     mount_options \<leftarrow> extract_string;
     failed \<leftarrow> gets failbit;
     if failed then State_Monad.return None
     else do {
       optional_fields \<leftarrow> State (optional_loop []);
       failed \<leftarrow> gets failbit;
       if failed then State_Monad.return None
       else do {
         filesystem_type \<leftarrow> extract_string;
         mount_source \<leftarrow> extract_string;
         super_options \<leftarrow> extract_string;
         failed \<leftarrow> gets failbit;
         if failed then State_Monad.return None
         else State_Monad.return (Some (make_entry mount_id parent_id (mk major minor)
           root mount_point mount_options optional_fields filesystem_type mount_source
           super_options)) } } })
     (istringstream line))"

primrec parse_mountinfo_lines ::
    "(c_int \<Rightarrow> c_int \<Rightarrow> dev_t) \<Rightarrow> string list \<Rightarrow> mountinfo_entry list" where
  "parse_mountinfo_lines mk [] = []"
| "parse_mountinfo_lines mk (line # lines) =
     (case parse_mountinfo_line mk line of
        None \<Rightarrow> parse_mountinfo_lines mk lines
      | Some e \<Rightarrow> e # parse_mountinfo_lines mk lines)"

definition parse_mountinfo :: "(c_int \<Rightarrow> c_int \<Rightarrow> dev_t) \<Rightarrow> string \<Rightarrow> mountinfo_entry list" where
  "parse_mountinfo mk content =
     parse_mountinfo_lines mk (getline_loop newline (istringstream content))"

lemma parse_mountinfo_lines_filter:
  "parse_mountinfo_lines mk ls = List.map_filter (parse_mountinfo_line mk) ls"
  by (induction ls) (simp_all add: map_filter_simps split: option.split)

interpretation mountinfo_file: line_file "parse_mountinfo_line mk" "parse_mountinfo mk" for mk
  by unfold_locales
    (simp add: parse_mountinfo_def parse_mountinfo_lines_filter getline_loop_split)

section \<open>Resolving the root of a mount\<close>

text \<open>
  \<open>mountinfo_root_resolver\<close>: for every device, where its whole file system is mounted; a
  later entry replaces an earlier one.
\<close>

type_synonym root_resolver = "dev_t \<rightharpoonup> string"

definition mountinfo_root_resolver :: "mountinfo_entry list \<Rightarrow> root_resolver" where
  "mountinfo_root_resolver mount_infos =
     foldl (\<lambda>m mount_info.
         if root mount_info = ''/'' then m(device mount_info \<mapsto> mount_point mount_info) else m)
       Map.empty mount_infos"

definition resolveRootOf :: "root_resolver \<Rightarrow> mountinfo_entry \<Rightarrow> string" where
  "resolveRootOf m mount_info =
     (case m (device mount_info) of
        Some mount_root \<Rightarrow>
          if mount_root \<noteq> ''/'' then mount_root @ root mount_info else root mount_info
      | None \<Rightarrow> root mount_info)"

section \<open>Option lists, described\<close>

definition option_key :: "string \<Rightarrow> string" where
  "option_key token = takeWhile (\<lambda>c. c \<noteq> CHR ''='') token"

definition option_value :: "string \<Rightarrow> string" where
  "option_value token = takeWhile (\<lambda>c. c \<noteq> newline) (tl (dropWhile (\<lambda>c. c \<noteq> CHR ''='') token))"

lemma getline_value:
  "fst (run_state (getline d) (stream b s)) = takeWhile (\<lambda>c. c \<noteq> d) s"
  by (simp add: getline_def Let_def split: list.split)

lemma parse_option_token:
  "parse_option ret token =
     (if token = [] then ret else ret(option_key token \<mapsto> option_value token))"
proof (cases "dropWhile (\<lambda>c. c \<noteq> CHR ''='') token")
  case Nil
  then have "takeWhile (\<lambda>c. c \<noteq> CHR ''='') token = token"
    by (metis append_Nil2 takeWhile_dropWhile_id)
  with Nil show ?thesis
    by (simp add: parse_option_def getline_def istringstream_def good_def Let_def
        option_key_def option_value_def)
next
  case (Cons c r)
  then have "token \<noteq> []" by auto
  with Cons show ?thesis
    using getline_value [where d = newline and b = 10 and s = r]
    by (simp add: parse_option_def getline_def [of "CHR ''=''"] istringstream_def good_def
        Let_def option_key_def option_value_def case_prod_beta)
qed

text \<open>The list of bindings, in order; the last binding of a key counts.\<close>

definition option_bindings :: "string \<Rightarrow> (string \<times> string) list" where
  "option_bindings input =
     map (\<lambda>t. (option_key t, option_value t)) (filter (\<lambda>t. t \<noteq> []) (split_on (CHR '','') input))"

lemma foldl_parse_option:
  "foldl parse_option m ts =
     m ++ map_of (rev (map (\<lambda>t. (option_key t, option_value t)) (filter (\<lambda>t. t \<noteq> []) ts)))"
  by (induction ts arbitrary: m) (auto simp: parse_option_token map_add_def fun_eq_iff
      split: option.splits)

lemma parseMountOptions_bindings: "parseMountOptions s = map_of (rev (option_bindings s))"
  by (simp add: parseMountOptions_def option_bindings_def foldl_parse_option getline_loop_split)

text \<open>How the kernel prints options: \<open>key\<close> or \<open>key=value\<close>, separated by commas.\<close>

fun render_option :: "string \<times> string option \<Rightarrow> string" where
  "render_option (k, None) = k"
| "render_option (k, Some v) = k @ ''='' @ v"

fun render_options :: "(string \<times> string option) list \<Rightarrow> string" where
  "render_options [] = []"
| "render_options [x] = render_option x"
| "render_options (x # xs) = render_option x @ '','' @ render_options xs"

definition wf_option :: "string \<times> string option \<Rightarrow> bool" where
  "wf_option x \<longleftrightarrow>
     fst x \<noteq> [] \<and> CHR ''='' \<notin> set (fst x) \<and> CHR '','' \<notin> set (fst x)
     \<and> (\<forall>v \<in> set_option (snd x). CHR '','' \<notin> set v \<and> newline \<notin> set v)"

definition option_binding :: "string \<times> string option \<Rightarrow> string \<times> string" where
  "option_binding x = (fst x, case snd x of None \<Rightarrow> [] | Some v \<Rightarrow> v)"

lemma wf_option_token:
  assumes "wf_option x"
  shows "render_option x \<noteq> []" and "CHR '','' \<notin> set (render_option x)"
    and "(option_key (render_option x), option_value (render_option x)) = option_binding x"
proof -
  obtain k v where x: "x = (k, v)" by (cases x)
  have k: "list_all (\<lambda>c. c \<noteq> CHR ''='') k"
    using assms by (auto simp: x wf_option_def list_all_iff)
  show "render_option x \<noteq> []" "CHR '','' \<notin> set (render_option x)"
    using assms by (cases v; auto simp: x wf_option_def)+
  show "(option_key (render_option x), option_value (render_option x)) = option_binding x"
  proof (cases v)
    case None
    with k show ?thesis
      using takeWhile_stop [of _ k "[]"] dropWhile_stop [of _ k "[]"]
      by (simp add: x option_key_def option_value_def option_binding_def)
  next
    case (Some w)
    have "list_all (\<lambda>c. c \<noteq> newline) w"
      using assms by (auto simp: x Some wf_option_def list_all_iff)
    with k Some show ?thesis
      using takeWhile_stop [of _ w "[]"]
      by (simp add: x option_key_def option_value_def option_binding_def
          takeWhile_stop dropWhile_stop)
  qed
qed

lemma split_render_options:
  "list_all wf_option xs \<Longrightarrow> split_on (CHR '','') (render_options xs) = map render_option xs"
  by (induction xs rule: render_options.induct)
    (auto simp: wf_option_token split_on_last split_on_field)

lemma parse_render_options:
  assumes "list_all wf_option xs"
  shows "parseMountOptions (render_options xs) = map_of (rev (map option_binding xs))"
proof -
  have "filter (\<lambda>t. t \<noteq> []) (map render_option xs) = map render_option xs"
    using assms by (auto simp: filter_id_conv list_all_iff wf_option_token(1))
  moreover have "map (\<lambda>t. (option_key t, option_value t)) (map render_option xs) = map option_binding xs"
    using assms by (auto simp: list_all_iff wf_option_token(3))
  ultimately show ?thesis
    by (simp only: parseMountOptions_bindings option_bindings_def split_render_options [OF assms])
qed

section \<open>The resolver, described\<close>

text \<open>The last entry that mounts the whole file system of a device.\<close>

lemma mountinfo_root_resolver_last:
  "mountinfo_root_resolver ms d =
     map_option mount_point (find (\<lambda>m. root m = ''/'' \<and> device m = d) (rev ms))"
  by (induction ms rule: rev_induct) (auto simp: mountinfo_root_resolver_def)

section \<open>The line format\<close>

text \<open>
  \<open>proc(5)\<close>: mount and parent id, device, root, mount point, mount options, zero or more
  optional fields, a dash, file system type, source and super block options. Blanks inside
  a field are escaped by the kernel, so every field is a word.
\<close>

primrec spaced :: "string list \<Rightarrow> string" where
  "spaced [] = []"
| "spaced (f # fs) = CHR '' '' # f @ spaced fs"

record mount_line =
  ml_id :: nat
  ml_parent :: nat
  ml_major :: nat
  ml_minor :: nat
  ml_root :: string
  ml_point :: string
  ml_options :: string
  ml_optional :: "string list"
  ml_type :: string
  ml_source :: string
  ml_super :: string

definition render_mount_line :: "mount_line \<Rightarrow> string" where
  "render_mount_line m =
     padded 10 1 (ml_id m) @ '' '' @ padded 10 1 (ml_parent m) @ '' ''
     @ padded 10 1 (ml_major m) @ '':'' @ padded 10 1 (ml_minor m) @ '' ''
     @ ml_root m @ '' '' @ ml_point m @ '' '' @ ml_options m
     @ spaced (ml_optional m) @ '' - ''
     @ ml_type m @ '' '' @ ml_source m @ '' '' @ ml_super m"

definition wf_mount_line :: "mount_line \<Rightarrow> bool" where
  "wf_mount_line m \<longleftrightarrow>
     ml_id m < 2 ^ 31 \<and> ml_parent m < 2 ^ 31 \<and> ml_major m < 2 ^ 31 \<and> ml_minor m < 2 ^ 31
     \<and> list_all is_word [ml_root m, ml_point m, ml_options m, ml_type m, ml_super m]
     \<and> list_all (\<lambda>f. is_word f \<and> f \<noteq> ''-'') (ml_optional m)"

definition mount_line_entry :: "(c_int \<Rightarrow> c_int \<Rightarrow> dev_t) \<Rightarrow> mount_line \<Rightarrow> mountinfo_entry" where
  "mount_line_entry mk m =
     make_entry (of_nat (ml_id m)) (of_nat (ml_parent m))
       (mk (of_nat (ml_major m)) (of_nat (ml_minor m))) (ml_root m) (ml_point m) (ml_options m)
       (spaced (ml_optional m)) (ml_type m) (ml_source m) (ml_super m)"

lemma optional_loop_fields:
  assumes "list_all (\<lambda>f. is_word f \<and> f \<noteq> ''-'') fs"
  shows "optional_loop acc (stream b (spaced fs @ '' - '' @ t)) =
           (acc @ spaced fs, stream b (CHR '' '' # t))"
  using assms
proof (induction fs arbitrary: acc)
  case Nil
  have "run_state extract_string (stream b (CHR '' '' # ''-'' @ CHR '' '' # t)) =
      (''-'', (stream b (CHR '' '' # t))\<lparr>eofbit := (CHR '' '' # t = [])\<rparr>)"
    by (rule run_word) (simp_all add: is_word_def)
  then show ?case by (subst optional_loop.simps) simp
next
  case (Cons f fs)
  let ?t = "spaced fs @ '' - '' @ t"
  have "?t \<noteq> [] \<and> is_space (hd ?t)" by (cases fs) simp_all
  then have "run_state extract_string (stream b (CHR '' '' # f @ ?t)) = (f, stream b ?t)"
    using Cons.prems run_word [of f ?t b] by simp
  with Cons show ?case
    by (subst optional_loop.simps) simp
qed

lemma hd_spaced: "is_space (hd (spaced fs @ CHR '' '' # t))"
  by (cases fs) simp_all

lemma parse_render_mount_line:
  assumes "wf_mount_line m" and "is_word (ml_source m)"
  shows "parse_mountinfo_line mk (render_mount_line m) = Some (mount_line_entry mk m)"
  using assms
  by (simp add: parse_mountinfo_line_def render_mount_line_def wf_mount_line_def
      mount_line_entry_def istringstream_def run_simps hd_spaced optional_loop_fields [simplified])

text \<open>A mount whose source is empty leaves one field too few: its line is skipped.\<close>

lemma parse_empty_source:
  assumes "wf_mount_line m" and "ml_source m = []"
  shows "parse_mountinfo_line mk (render_mount_line m) = None"
  using assms
  by (simp add: parse_mountinfo_line_def render_mount_line_def wf_mount_line_def
      istringstream_def run_simps hd_spaced optional_loop_fields [simplified])

section \<open>Whole files\<close>

lemma spaced_no_newline: "list_all is_word fs \<Longrightarrow> newline \<notin> set (spaced fs)"
  by (induction fs) (auto simp: is_word_no_newline)

lemma render_mount_line_no_newline:
  assumes "wf_mount_line m" and "ml_source m = [] \<or> is_word (ml_source m)"
  shows "newline \<notin> set (render_mount_line m)"
proof -
  have "newline \<notin> set (spaced (ml_optional m))"
    using assms(1) by (intro spaced_no_newline) (auto simp: wf_mount_line_def list_all_iff)
  then show ?thesis
    using assms by (auto simp: render_mount_line_def wf_mount_line_def padded_no_newline is_word_no_newline)
qed

definition render_mountinfo :: "mount_line list \<Rightarrow> string" where
  "render_mountinfo ms = concat (map (\<lambda>m. render_mount_line m @ [newline]) ms)"

lemma parse_render_mountinfo:
  assumes "list_all (\<lambda>m. wf_mount_line m \<and> is_word (ml_source m)) ms"
  shows "parse_mountinfo mk (render_mountinfo ms) = map (mount_line_entry mk) ms"
  unfolding render_mountinfo_def using assms
  by (intro mountinfo_file.parse_rendered)
    (auto simp: list_all_iff parse_render_mount_line render_mount_line_no_newline)

section \<open>Properties\<close>

text \<open>
  Reading back what the kernel prints. A mountinfo file of well-formed lines with a
  source, any number of optional fields included, is read as its entries, in order.
\<close>

theorem mountinfo_roundtrip:
  assumes "list_all (\<lambda>m. wf_mount_line m \<and> is_word (ml_source m)) ms"
  shows "parse_mountinfo mk (render_mountinfo ms) = map (mount_line_entry mk) ms"
  using assms by (rule parse_render_mountinfo)

definition sample_mounts :: "mount_line list" where
  "sample_mounts =
     [\<lparr>ml_id = 20, ml_parent = 1, ml_major = 254, ml_minor = 3, ml_root = ''/'', ml_point = ''/'',
        ml_options = ''ro'', ml_optional = [], ml_type = ''ext4'', ml_source = ''/dev/root'', ml_super = ''ro''\<rparr>,
      \<lparr>ml_id = 30, ml_parent = 20, ml_major = 0, ml_minor = 40, ml_root = ''/'', ml_point = ''/sbin'',
        ml_options = ''rw'', ml_optional = [''shared:9''], ml_type = ''tmpfs'', ml_source = ''magisk'',
        ml_super = ''rw''\<rparr>,
      \<lparr>ml_id = 31, ml_parent = 20, ml_major = 254, ml_minor = 9, ml_root = ''/adb/modules/x'',
        ml_point = ''/system/etc'', ml_options = ''rw'', ml_optional = [], ml_type = ''f2fs'',
        ml_source = ''/dev/data'', ml_super = ''rw''\<rparr>,
      \<lparr>ml_id = 32, ml_parent = 20, ml_major = 254, ml_minor = 9, ml_root = ''/'', ml_point = ''/data'',
        ml_options = ''rw'', ml_optional = [], ml_type = ''f2fs'', ml_source = ''/dev/data'',
        ml_super = ''rw''\<rparr>]"

lemma sample_mounts_wf: "list_all (\<lambda>m. wf_mount_line m \<and> is_word (ml_source m)) sample_mounts"
  by (simp add: sample_mounts_def wf_mount_line_def is_word_def is_space_def)

theorem mountinfo_roundtrip_witness:
  "map mount_source (parse_mountinfo (\<lambda>a b. ucast a) (render_mountinfo sample_mounts)) =
     [''/dev/root'', ''magisk'', ''/dev/data'', ''/dev/data'']"
  unfolding mountinfo_roundtrip [OF sample_mounts_wf]
  by (simp add: sample_mounts_def mount_line_entry_def make_entry_def)

text \<open>
  A mount with an empty source, which the kernel prints as two blanks in a row, has one
  field too few for the parser: its line is dropped and the rest of the file is read as if
  it were not there.
\<close>

theorem empty_source_dropped:
  assumes "wf_mount_line m" and "ml_source m = []"
  shows "parse_mountinfo mk (render_mount_line m @ newline # following) = parse_mountinfo mk following"
  using assms by (intro mountinfo_file.parse_skips parse_empty_source render_mount_line_no_newline) simp_all

theorem empty_source_dropped_witness:
  "parse_mountinfo (\<lambda>a b. ucast a) (render_mount_line
     \<lparr>ml_id = 33, ml_parent = 20, ml_major = 0, ml_minor = 41, ml_root = ''/'', ml_point = ''/data/adb/x'',
        ml_options = ''rw'', ml_optional = [], ml_type = ''tmpfs'', ml_source = [], ml_super = ''rw''\<rparr>
     @ newline # []) = []"
  by (subst empty_source_dropped) (simp_all add: wf_mount_line_def is_word_def is_space_def)

text \<open>
  Option lists. What the kernel prints for a list of options, with or without values,
  is read as a map in which the last binding of a key counts.
\<close>

theorem options_roundtrip:
  assumes "list_all wf_option xs"
  shows "parseMountOptions (render_options xs) key =
     (case find (\<lambda>x. fst x = key) (rev xs) of
        None \<Rightarrow> None
      | Some x \<Rightarrow> Some (case snd x of None \<Rightarrow> [] | Some v \<Rightarrow> v))"
proof -
  have "map_of (map option_binding ys) key =
      (case find (\<lambda>x. fst x = key) ys of
         None \<Rightarrow> None | Some x \<Rightarrow> Some (case snd x of None \<Rightarrow> [] | Some v \<Rightarrow> v))" for ys
    by (induction ys) (auto simp: option_binding_def)
  then show ?thesis using assms by (simp only: parse_render_options rev_map)
qed

theorem options_roundtrip_witness:
  "parseMountOptions (render_options [(''rw'', None), (''errors'', Some ''panic''),
      (''errors'', Some ''remount-ro'')]) ''errors'' = Some ''remount-ro''"
  by (subst options_roundtrip) (simp_all add: wf_option_def)

text \<open>
  C39: any input. Whatever the string, every non-empty piece between commas binds the text
  before its first equals sign, the last piece with a key counts, and nothing else is bound.
\<close>

theorem options_any_input:
  "parseMountOptions input =
     map_of (rev (map (\<lambda>t. (takeWhile (\<lambda>c. c \<noteq> CHR ''='') t,
                             takeWhile (\<lambda>c. c \<noteq> newline) (tl (dropWhile (\<lambda>c. c \<noteq> CHR ''='') t))))
                  (filter (\<lambda>t. t \<noteq> []) (split_on (CHR '','') input))))"
  by (simp add: parseMountOptions_bindings option_bindings_def option_key_def option_value_def)

end
