(* ===== verification/Process.thy ===== *)
theory Process
  imports Map_Parser Mountinfo_Parser "HOL-Library.FSet"
begin

text \<open>
  The process the module runs in: its static variables, and a history of every call it
  makes to code outside the repository (the kernel, the Zygisk API, the fd utilities, the
  property library, the ELF reader). What such a call returns is a function of the history
  so far, given by the environment \<open>env\<close>; the properties hold for every environment unless
  they say otherwise, so nothing is assumed about when calls fail.
\<close>

section \<open>File descriptors\<close>

text \<open>A file descriptor is an \<open>int\<close>; \<open>std::set<int>\<close> orders descriptors as signed numbers.\<close>

datatype fd = Fd (fd_num: c_int)

abbreviation no_fd :: fd where          \<comment> \<open>\<open>-1\<close>, the error return\<close>
  "no_fd \<equiv> Fd (- 1)"

instantiation fd :: linorder
begin

definition less_eq_fd :: "fd \<Rightarrow> fd \<Rightarrow> bool" where
  "less_eq_fd a b \<longleftrightarrow> sint (fd_num a) \<le> sint (fd_num b)"

definition less_fd :: "fd \<Rightarrow> fd \<Rightarrow> bool" where
  "less_fd a b \<longleftrightarrow> sint (fd_num a) < sint (fd_num b)"

instance
  by standard (auto simp: less_eq_fd_def less_fd_def sint_eq_iff intro: fd.expand)

end

section \<open>Calls to the outside\<close>

text \<open>The two static pointers that \<open>pltHookRegister\<close> may be asked to fill in.\<close>

datatype slot = Slot_unshare | Slot_setresuid

text \<open>The functions the module installs in the PLT: its own hooks, or a saved pointer.\<close>

datatype hook_fn = New_unshare | New_setresuid | Saved u64

datatype zygisk_option = FORCE_DENYLIST_UNMOUNT | DLCLOSE_MODULE_LIBRARY

text \<open>
  A method handed to \<open>hookJniNativeMethods\<close>: the framework overwrites \<open>fnPtr\<close> with the
  original function, null when no method matches.
\<close>

record JNINativeMethod =
  jni_name :: string
  jni_signature :: string
  fnPtr :: "u64 option"

datatype event =
    Ev_open_file string bool                    \<comment> \<open>\<open>std::ifstream\<close> on a path, whether it opened\<close>
  | Ev_umount2 string c_int c_int               \<comment> \<open>path, flags, result\<close>
  | Ev_mount "string option" string "string option" u64 "string option" c_int
                                                \<comment> \<open>source, target, type, flags, data, result\<close>
  | Ev_unshare u64 c_int c_int                  \<comment> \<open>through the saved pointer: flags, result\<close>
  | Ev_setresuid u64 u32 u32 u32 c_int
  | Ev_getpid c_int
  | Ev_open string fd
  | Ev_setns fd c_int
  | Ev_write fd "byte list" c_int
  | Ev_read fd nat "byte list option"           \<comment> \<open>what arrived, or an error\<close>
  | Ev_close fd
  | Ev_fork c_int
  | Ev_exit c_int                               \<comment> \<open>of the forked child\<close>
  | Ev_waitpid c_int c_int                      \<comment> \<open>child, status\<close>
  | Ev_registerModule bool
  | Ev_setOption zygisk_option
  | Ev_getFlags u32
  | Ev_connectCompanion fd
  | Ev_exemptFd fd bool
  | Ev_getModuleDir fd
  | Ev_hookJniNativeMethods string c_int        \<comment> \<open>class, number of methods\<close>
  | Ev_pltHookRegister dev_t ino_t string hook_fn "slot option"
  | Ev_pltHookCommit bool
  | Ev_GetOpenFds bool
  | Ev_CreateFromFd fd bool
  | Ev_ReopenOrDetach fd string
  | Ev_elf_load string bool
  | Ev_prop_init c_int
  | Ev_prop_foreach
  | Ev_prop_update string string

type_synonym history = "event list"

section \<open>The environment\<close>

record fd_info =
  fdi_fd :: fd
  fdi_is_sock :: bool
  fdi_file_path :: string

record elf_section =
  sec_name :: string
  sec_address :: u64
  sec_size :: u64

text \<open>
  A property as the property library shows it: the name and the value are character
  arrays, \<open>prop_is_long\<close> is what the library's \<open>is_long()\<close> answers.
\<close>

record prop_info =
  prop_name :: string
  prop_serial :: u32
  prop_is_long :: bool
  prop_value :: "char list"

record env =
  env_makedev :: "c_int \<Rightarrow> c_int \<Rightarrow> dev_t"
  env_file :: "history \<Rightarrow> string \<Rightarrow> string option"
  env_umount2 :: "history \<Rightarrow> string \<Rightarrow> c_int \<Rightarrow> c_int"
  env_mount :: "history \<Rightarrow> string option \<Rightarrow> string \<Rightarrow> string option \<Rightarrow> u64 \<Rightarrow> string option \<Rightarrow> c_int"
  env_unshare :: "history \<Rightarrow> c_int \<Rightarrow> c_int"
  env_setresuid :: "history \<Rightarrow> u32 \<Rightarrow> u32 \<Rightarrow> u32 \<Rightarrow> c_int"
  env_getpid :: "history \<Rightarrow> c_int"
  env_open :: "history \<Rightarrow> string \<Rightarrow> fd"
  env_setns :: "history \<Rightarrow> fd \<Rightarrow> c_int"
  env_write :: "history \<Rightarrow> fd \<Rightarrow> byte list \<Rightarrow> c_int"
  env_read :: "history \<Rightarrow> fd \<Rightarrow> nat \<Rightarrow> byte list option"
  env_fork :: "history \<Rightarrow> c_int"
  env_waitpid :: "history \<Rightarrow> c_int \<Rightarrow> c_int option"
  env_open_fds :: "history \<Rightarrow> fd fset option"
  env_fd_info :: "history \<Rightarrow> fd \<Rightarrow> fd_info option"
  env_elf :: "history \<Rightarrow> string \<Rightarrow> elf_section list option"
  env_prop_init :: "history \<Rightarrow> c_int"
  env_props :: "history \<Rightarrow> prop_info list"

text \<open>
  The function table Zygisk hands over (\<open>api_table\<close> of \<open>zygisk.hpp\<close>). Its function pointers
  may be null, except \<open>registerModule\<close>. A commit answers whether it succeeded and which
  saved pointers it stored.
\<close>

record api_table =
  tbl_registerModule :: "history \<Rightarrow> bool"
  tbl_hookJniNativeMethods ::
    "(history \<Rightarrow> string \<Rightarrow> JNINativeMethod list \<Rightarrow> c_int \<Rightarrow> JNINativeMethod list) option"
  tbl_pltHookRegister :: "unit option"
  tbl_exemptFd :: "(history \<Rightarrow> fd \<Rightarrow> bool) option"
  tbl_pltHookCommit :: "(history \<Rightarrow> bool \<times> (slot \<Rightarrow> u64 option)) option"
  tbl_connectCompanion :: "(history \<Rightarrow> fd) option"
  tbl_setOption :: "unit option"
  tbl_getModuleDir :: "(history \<Rightarrow> fd) option"
  tbl_getFlags :: "(history \<Rightarrow> u32) option"

section \<open>The state of a process\<close>

text \<open>The value of the static \<open>callbackFunction\<close>: empty, or the lambda with its captured fd.\<close>

datatype callback = Empty_callback | Hide_callback fd

record proc =
  history :: history
  maps_cache :: "u64 map_entry list"
  mountinfo_cache :: "mountinfo_entry list"
  module_api :: "api_table option"              \<comment> \<open>\<open>this->api\<close>\<close>
  callbackFunction :: callback
  old_unshare :: "u64 option"                   \<comment> \<open>\<open>None\<close> is \<open>nullptr\<close>\<close>
  old_setresuid :: "u64 option"
  plt_pending :: "slot list"                    \<comment> \<open>pointers to fill in at the next commit\<close>
  prop_initialized :: bool
  resetCount :: c_int
  memory :: "u64 \<Rightarrow> byte"

text \<open>A call: ask the environment, append the event.\<close>

definition call :: "(history \<Rightarrow> 'r) \<Rightarrow> ('r \<Rightarrow> event) \<Rightarrow> (proc, 'r) state" where
  "call answer ev = State (\<lambda>s.
     let r = answer (history s) in (r, s\<lparr>history := history s @ [ev r]\<rparr>))"

abbreviation emit :: "event \<Rightarrow> (proc, unit) state" where
  "emit ev \<equiv> call (\<lambda>_. ()) (\<lambda>_. ev)"

lemma run_state_call [simp]:
  "run_state (call answer ev) s =
     (answer (history s), s\<lparr>history := history s @ [ev (answer (history s))]\<rparr>)"
  by (simp add: call_def Let_def)

definition open_file :: "env \<Rightarrow> string \<Rightarrow> (proc, string option) state" where
  "open_file E path = call (\<lambda>h. env_file E h path) (\<lambda>r. Ev_open_file path (r \<noteq> None))"

definition sys_umount2 :: "env \<Rightarrow> string \<Rightarrow> c_int \<Rightarrow> (proc, c_int) state" where
  "sys_umount2 E path flags = call (\<lambda>h. env_umount2 E h path flags) (Ev_umount2 path flags)"

definition sys_mount ::
    "env \<Rightarrow> string option \<Rightarrow> string \<Rightarrow> string option \<Rightarrow> u64 \<Rightarrow> string option \<Rightarrow> (proc, c_int) state" where
  "sys_mount E src tgt ty flags opts =
     call (\<lambda>h. env_mount E h src tgt ty flags opts) (Ev_mount src tgt ty flags opts)"

definition sys_open :: "env \<Rightarrow> string \<Rightarrow> (proc, fd) state" where
  "sys_open E path = call (\<lambda>h. env_open E h path) (Ev_open path)"

definition sys_setns :: "env \<Rightarrow> fd \<Rightarrow> (proc, c_int) state" where
  "sys_setns E f = call (\<lambda>h. env_setns E h f) (Ev_setns f)"

definition sys_getpid :: "env \<Rightarrow> (proc, c_int) state" where
  "sys_getpid E = call (env_getpid E) Ev_getpid"

definition sys_write :: "env \<Rightarrow> fd \<Rightarrow> byte list \<Rightarrow> (proc, c_int) state" where
  "sys_write E f bs = call (\<lambda>h. env_write E h f bs) (Ev_write f bs)"

definition sys_read :: "env \<Rightarrow> fd \<Rightarrow> nat \<Rightarrow> (proc, byte list option) state" where
  "sys_read E f n = call (\<lambda>h. env_read E h f n) (Ev_read f n)"

definition sys_close :: "fd \<Rightarrow> (proc, unit) state" where
  "sys_close f = emit (Ev_close f)"

lemmas sys_defs [run_simps] = open_file_def sys_umount2_def sys_mount_def sys_open_def
  sys_setns_def sys_getpid_def sys_write_def sys_read_def sys_close_def

text \<open>A process just started: nothing cached, no hook, an empty callback.\<close>

definition fresh_process :: proc where
  "fresh_process = \<lparr>history = [], maps_cache = [], mountinfo_cache = [], module_api = None,
     callbackFunction = Empty_callback, old_unshare = None, old_setresuid = None,
     plt_pending = [], prop_initialized = False, resetCount = 0, memory = (\<lambda>_. 0)\<rparr>"

section \<open>Which events an operation may add\<close>

text \<open>
  An operation only appends to the history; \<open>emits P m\<close> says in addition that every event
  it appends satisfies \<open>P\<close>. The rules compose over the code's own structure.
\<close>

definition emits :: "(event \<Rightarrow> bool) \<Rightarrow> (proc, 'a) state \<Rightarrow> bool" where
  "emits P m \<longleftrightarrow>
     (\<forall>s. \<exists>es. history (snd (run_state m s)) = history s @ es \<and> list_all P es)"

named_theorems emits_intros "which events operations append"

lemma emitsD:
  assumes "emits P m" and "run_state m s = (a, t)"
  obtains es where "history t = history s @ es" and "list_all P es"
  using assms unfolding emits_def by (metis snd_conv)

lemma emitsI:
  assumes "\<And>s. \<exists>es. history (snd (run_state m s)) = history s @ es \<and> list_all P es"
  shows "emits P m"
  using assms by (simp add: emits_def)

lemma emits_return [emits_intros]: "emits P (State_Monad.return x)"
  by (simp add: emits_def)

lemma emits_bind [emits_intros]:
  assumes "emits P m" and "\<And>x. emits P (f x)"
  shows "emits P (State_Monad.bind m f)"
proof (rule emitsI)
  fix s
  obtain a t where m: "run_state m s = (a, t)" by fastforce
  obtain b u where f: "run_state (f a) t = (b, u)" by fastforce
  obtain es where "history t = history s @ es" and "list_all P es"
    using assms(1) m by (rule emitsD)
  moreover obtain es' where "history u = history t @ es'" and "list_all P es'"
    using assms(2) f by (rule emitsD)
  ultimately show "\<exists>es. history (snd (run_state (State_Monad.bind m f) s)) = history s @ es
      \<and> list_all P es"
    by (intro exI [of _ "es @ es'"]) (simp add: m f)
qed

lemma emits_gets [emits_intros]: "emits P (gets f)"
  by (simp add: emits_def)

lemma emits_modify [emits_intros]: "(\<And>s. history (f s) = history s) \<Longrightarrow> emits P (modify f)"
  by (simp add: emits_def)

lemma emits_call [emits_intros]: "(\<And>r. P (ev r)) \<Longrightarrow> emits P (call answer ev)"
  by (simp add: emits_def)

lemma emits_if [emits_intros]:
  "(b \<Longrightarrow> emits P m) \<Longrightarrow> (\<not> b \<Longrightarrow> emits P n) \<Longrightarrow> emits P (if b then m else n)"
  by simp

lemma emits_case_option [emits_intros]:
  "(x = None \<Longrightarrow> emits P m) \<Longrightarrow> (\<And>a. x = Some a \<Longrightarrow> emits P (f a)) \<Longrightarrow>
     emits P (case x of None \<Rightarrow> m | Some a \<Rightarrow> f a)"
  by (cases x) simp_all

lemma emits_case_prod [emits_intros]:
  "(\<And>a b. x = (a, b) \<Longrightarrow> emits P (f a b)) \<Longrightarrow> emits P (case x of (a, b) \<Rightarrow> f a b)"
  by (cases x) simp

lemma emits_for_each [emits_intros]:
  "(\<And>x. x \<in> set xs \<Longrightarrow> emits P (f x)) \<Longrightarrow> emits P (for_each xs f)"
  by (induction xs) (simp_all add: emits_intros)

lemma emits_mono: "emits P m \<Longrightarrow> (\<And>e. P e \<Longrightarrow> Q e) \<Longrightarrow> emits Q m"
  unfolding emits_def by (meson list.pred_mono_strong)

section \<open>Which parts of the process an operation keeps\<close>

definition keeps :: "(proc \<Rightarrow> 'b) \<Rightarrow> (proc, 'a) state \<Rightarrow> bool" where
  "keeps f m \<longleftrightarrow> (\<forall>s. f (snd (run_state m s)) = f s)"

named_theorems keeps_intros "parts of the process that operations keep"

lemma keepsD: "keeps f m \<Longrightarrow> run_state m s = (a, t) \<Longrightarrow> f t = f s"
  unfolding keeps_def by (metis snd_conv)

lemma keeps_run: "keeps f m \<Longrightarrow> f (snd (run_state m s)) = f s"
  by (simp add: keeps_def)

lemma keeps_return [keeps_intros]: "keeps f (State_Monad.return x)"
  by (simp add: keeps_def)

lemma keeps_bind [keeps_intros]:
  "keeps f m \<Longrightarrow> (\<And>x. keeps f (g x)) \<Longrightarrow> keeps f (State_Monad.bind m g)"
  by (auto simp: keeps_def case_prod_beta)

lemma keeps_gets [keeps_intros]: "keeps f (gets g)"
  by (simp add: keeps_def)

lemma keeps_modify [keeps_intros]: "(\<And>s. f (g s) = f s) \<Longrightarrow> keeps f (modify g)"
  by (simp add: keeps_def)

lemma keeps_call [keeps_intros]:
  "(\<And>s h. f (s\<lparr>history := h\<rparr>) = f s) \<Longrightarrow> keeps f (call answer ev)"
  by (simp add: keeps_def)

lemma keeps_if [keeps_intros]:
  "(b \<Longrightarrow> keeps f m) \<Longrightarrow> (\<not> b \<Longrightarrow> keeps f n) \<Longrightarrow> keeps f (if b then m else n)"
  by simp

lemma keeps_case_option [keeps_intros]:
  "(x = None \<Longrightarrow> keeps f m) \<Longrightarrow> (\<And>a. x = Some a \<Longrightarrow> keeps f (g a)) \<Longrightarrow>
     keeps f (case x of None \<Rightarrow> m | Some a \<Rightarrow> g a)"
  by (cases x) simp_all

lemma keeps_case_prod [keeps_intros]:
  "(\<And>a b. x = (a, b) \<Longrightarrow> keeps f (g a b)) \<Longrightarrow> keeps f (case x of (a, b) \<Rightarrow> g a b)"
  by (cases x) simp

lemma keeps_for_each [keeps_intros]:
  "(\<And>x. x \<in> set xs \<Longrightarrow> keeps f (g x)) \<Longrightarrow> keeps f (for_each xs g)"
  by (induction xs) (simp_all add: keeps_intros)

text \<open>The static variables of \<open>main.cpp\<close> and the module object.\<close>

definition statics :: "proc \<Rightarrow> api_table option \<times> callback \<times> u64 option \<times> u64 option" where
  "statics s = (module_api s, callbackFunction s, old_unshare s, old_setresuid s)"

lemma statics_eq:
  "statics t = statics s \<longleftrightarrow> module_api t = module_api s
     \<and> callbackFunction t = callbackFunction s \<and> old_unshare t = old_unshare s
     \<and> old_setresuid t = old_setresuid s"
  by (auto simp: statics_def)

unbundle bit_operations_syntax

section \<open>An environment in which every call succeeds\<close>

text \<open>
  The environment of the witnesses: no files, every call returns what success returns, a
  child's status is the documented one.
\<close>

definition calm_env :: env where
  "calm_env = \<lparr>env_makedev = (\<lambda>major minor. ucast major * 256 + ucast minor),
     env_file = (\<lambda>h path. None), env_umount2 = (\<lambda>h path flags. 0),
     env_mount = (\<lambda>h src tgt ty flags opts. 0), env_unshare = (\<lambda>h flags. 0),
     env_setresuid = (\<lambda>h r e s. 0), env_getpid = (\<lambda>h. 42), env_open = (\<lambda>h path. Fd 7),
     env_setns = (\<lambda>h f. 0), env_write = (\<lambda>h f bs. word_of_nat (length bs)),
     env_read = (\<lambda>h f n. Some (replicate n 0)), env_fork = (\<lambda>h. 43),
     env_waitpid = (\<lambda>h pid. case rev h of Ev_exit code # _ \<Rightarrow> Some (push_bit 8 (code AND 255)) | _ \<Rightarrow> None),
     env_open_fds = (\<lambda>h. Some {||}), env_fd_info = (\<lambda>h f. None), env_elf = (\<lambda>h path. None),
     env_prop_init = (\<lambda>h. 0), env_props = (\<lambda>h. [])\<rparr>"

definition calm_api :: "u32 \<Rightarrow> api_table" where
  "calm_api flags = \<lparr>tbl_registerModule = (\<lambda>h. True),
     tbl_hookJniNativeMethods = Some (\<lambda>h cls ms n. ms), tbl_pltHookRegister = Some (),
     tbl_exemptFd = Some (\<lambda>h f. True), tbl_pltHookCommit = Some (\<lambda>h. (True, \<lambda>sl. Some 4096)),
     tbl_connectCompanion = Some (\<lambda>h. Fd 9), tbl_setOption = Some (),
     tbl_getModuleDir = Some (\<lambda>h. Fd 3), tbl_getFlags = Some (\<lambda>h. flags)\<rparr>"

lemma calm_env_simps [simp]:
  "env_file calm_env h path = None" "env_umount2 calm_env h path fl = 0"
  "env_mount calm_env h a b c d e = 0" "env_unshare calm_env h fl = 0"
  "env_setresuid calm_env h r1 r2 r3 = 0" "env_getpid calm_env h = 42"
  "env_open calm_env h path = Fd 7" "env_setns calm_env h f = 0"
  "env_write calm_env h f bs = word_of_nat (length bs)"
  "env_read calm_env h f n = Some (replicate n 0)" "env_fork calm_env h = 43"
  "env_open_fds calm_env h = Some {||}" "env_fd_info calm_env h f = None"
  "env_elf calm_env h path = None" "env_prop_init calm_env h = 0" "env_props calm_env h = []"
  by (simp_all add: calm_env_def)

lemma calm_api_simps [simp]:
  "tbl_registerModule (calm_api fl) = (\<lambda>h. True)" "tbl_pltHookRegister (calm_api fl) = Some ()"
  "tbl_exemptFd (calm_api fl) = Some (\<lambda>h f. True)"
  "tbl_pltHookCommit (calm_api fl) = Some (\<lambda>h. (True, \<lambda>sl. Some 4096))"
  "tbl_connectCompanion (calm_api fl) = Some (\<lambda>h. Fd 9)" "tbl_setOption (calm_api fl) = Some ()"
  "tbl_getModuleDir (calm_api fl) = Some (\<lambda>h. Fd 3)" "tbl_getFlags (calm_api fl) = Some (\<lambda>h. fl)"
  by (simp_all add: calm_api_def)

lemma fresh_process_simps [simp]:
  "history fresh_process = []" "maps_cache fresh_process = []" "mountinfo_cache fresh_process = []"
  "module_api fresh_process = None" "callbackFunction fresh_process = Empty_callback"
  "old_unshare fresh_process = None" "old_setresuid fresh_process = None"
  "plt_pending fresh_process = []" "prop_initialized fresh_process = False"
  "resetCount fresh_process = 0" "memory fresh_process = (\<lambda>_. 0)"
  by (simp_all add: fresh_process_def)

end
