(* ===== verification/Proc_Self.thy ===== *)
theory Proc_Self
  imports Process
begin

text \<open>
  \<open>parseSelfMaps\<close> and \<open>parseSelfMountinfo\<close>: the parsers of \<open>/proc/self/maps\<close> and
  \<open>/proc/self/mountinfo\<close> with their static caches. Both return a reference to the cache;
  no caller parses again while it uses the reference, so the model returns the contents.
  The locale \<open>cached_reader\<close> is the contract their callers rely on.
\<close>

section \<open>The two readers\<close>

definition parseSelfMaps :: "env \<Rightarrow> bool \<Rightarrow> (proc, u64 map_entry list) state" where
  "parseSelfMaps E cached = do {
     parser_cache \<leftarrow> gets maps_cache;
     if cached \<and> parser_cache \<noteq> [] then State_Monad.return parser_cache
     else do {
       modify (maps_cache_update (\<lambda>_. []));
       ifs \<leftarrow> open_file E ''/proc/self/maps'';
       case ifs of
         None \<Rightarrow> gets maps_cache
       | Some content \<Rightarrow> do {
           modify (maps_cache_update (\<lambda>_. parse_maps (env_makedev E) content));
           gets maps_cache } } }"

definition parseSelfMountinfo :: "env \<Rightarrow> bool \<Rightarrow> (proc, mountinfo_entry list) state" where
  "parseSelfMountinfo E cached = do {
     parser_cache \<leftarrow> gets mountinfo_cache;
     if cached \<and> parser_cache \<noteq> [] then State_Monad.return parser_cache
     else do {
       modify (mountinfo_cache_update (\<lambda>_. []));
       ifs \<leftarrow> open_file E ''/proc/self/mountinfo'';
       case ifs of
         None \<Rightarrow> gets mountinfo_cache
       | Some content \<Rightarrow> do {
           modify (mountinfo_cache_update (\<lambda>_. parse_mountinfo (env_makedev E) content));
           gets mountinfo_cache } } }"

section \<open>The contract of a cached reader\<close>

locale cached_reader =
  fixes read :: "bool \<Rightarrow> (proc, 'e list) state"
    and cache :: "proc \<Rightarrow> 'e list"
    and contents :: "history \<Rightarrow> 'e list"
    and path :: string
  assumes read_hit: "cache s \<noteq> [] \<Longrightarrow> run_state (read True) s = (cache s, s)"
    and read_miss: "\<not> (cached \<and> cache s \<noteq> []) \<Longrightarrow>
      fst (run_state (read cached) s) = contents (history s)
      \<and> cache (snd (run_state (read cached) s)) = contents (history s)
      \<and> (\<exists>ok. history (snd (run_state (read cached) s)) = history s @ [Ev_open_file path ok])"
begin

lemma read_result_cached:
  "fst (run_state (read cached) s) = cache (snd (run_state (read cached) s))"
  using read_hit [of s] read_miss [of cached s] by (cases "cached \<and> cache s \<noteq> []") auto

lemma read_fresh: "fst (run_state (read False) s) = contents (history s)"
  using read_miss [of False s] by simp

lemma read_cached_value:
  "fst (run_state (read True) s) = (if cache s = [] then contents (history s) else cache s)"
  using read_miss [of True s] read_hit [of s] by simp

text \<open>Once an entry was read, a cached read answers the same and opens nothing.\<close>

lemma read_again:
  assumes "run_state (read cached) s = (es, t)" and "es \<noteq> []"
  shows "run_state (read True) t = (es, t)"
  using assms read_result_cached [of cached s] read_hit [of t] by simp

lemma read_emits: "emits (\<lambda>e. \<exists>ok. e = Ev_open_file path ok) (read cached)"
proof (rule emitsI)
  fix s
  show "\<exists>es. history (snd (run_state (read cached) s)) = history s @ es
      \<and> list_all (\<lambda>e. \<exists>ok. e = Ev_open_file path ok) es"
  proof (cases "cached \<and> cache s \<noteq> []")
    case True
    then show ?thesis by (intro exI [of _ "[]"]) (simp add: read_hit)
  next
    case False
    then obtain ok where "history (snd (run_state (read cached) s)) = history s @ [Ev_open_file path ok]"
      using read_miss [of cached s] by blast
    then show ?thesis by (intro exI [of _ "[Ev_open_file path ok]"]) simp
  qed
qed

end

definition maps_contents :: "env \<Rightarrow> history \<Rightarrow> u64 map_entry list" where
  "maps_contents E h =
     (case env_file E h ''/proc/self/maps'' of
        None \<Rightarrow> [] | Some content \<Rightarrow> parse_maps (env_makedev E) content)"

definition mountinfo_contents :: "env \<Rightarrow> history \<Rightarrow> mountinfo_entry list" where
  "mountinfo_contents E h =
     (case env_file E h ''/proc/self/mountinfo'' of
        None \<Rightarrow> [] | Some content \<Rightarrow> parse_mountinfo (env_makedev E) content)"

interpretation self_maps: cached_reader
  "parseSelfMaps E" maps_cache "maps_contents E" "''/proc/self/maps''" for E
  by unfold_locales
    (auto simp: parseSelfMaps_def maps_contents_def run_simps split: option.split)

interpretation self_mountinfo: cached_reader
  "parseSelfMountinfo E" mountinfo_cache "mountinfo_contents E" "''/proc/self/mountinfo''" for E
  by unfold_locales
    (auto simp: parseSelfMountinfo_def mountinfo_contents_def run_simps split: option.split)

text \<open>Reading leaves the rest of the process alone.\<close>

lemma keeps_parseSelfMaps [keeps_intros]:
  assumes "\<And>s h. f (s\<lparr>history := h\<rparr>) = f s" and "\<And>s c. f (s\<lparr>maps_cache := c\<rparr>) = f s"
  shows "keeps f (parseSelfMaps E cached)"
  using assms by (auto simp: parseSelfMaps_def open_file_def intro!: keeps_intros)

lemma keeps_parseSelfMountinfo [keeps_intros]:
  assumes "\<And>s h. f (s\<lparr>history := h\<rparr>) = f s" and "\<And>s c. f (s\<lparr>mountinfo_cache := c\<rparr>) = f s"
  shows "keeps f (parseSelfMountinfo E cached)"
  using assms by (auto simp: parseSelfMountinfo_def open_file_def intro!: keeps_intros)

lemma parseSelfMountinfo_fresh:
  "run_state (parseSelfMountinfo E False) s =
     (mountinfo_contents E (history s),
      s\<lparr>history := history s @ [Ev_open_file ''/proc/self/mountinfo''
           (env_file E (history s) ''/proc/self/mountinfo'' \<noteq> None)],
        mountinfo_cache := mountinfo_contents E (history s)\<rparr>)"
  by (auto simp: parseSelfMountinfo_def mountinfo_contents_def run_simps split: option.split)

lemma run_parseSelfMaps:
  "run_state (parseSelfMaps E cached) s =
     (if cached \<and> maps_cache s \<noteq> [] then (maps_cache s, s)
      else (maps_contents E (history s),
        s\<lparr>history := history s @ [Ev_open_file ''/proc/self/maps''
             (env_file E (history s) ''/proc/self/maps'' \<noteq> None)],
          maps_cache := maps_contents E (history s)\<rparr>))"
  by (auto simp: parseSelfMaps_def maps_contents_def run_simps split: option.split)

section \<open>Properties\<close>

text \<open>
  The cache of the maps. A cached read answers from the cache and opens nothing when the
  cache holds an entry; in every other case the file is read again and the cache becomes
  what it holds now, empty when the file cannot be opened.
\<close>

theorem parseSelfMaps_caches:
  "run_state (parseSelfMaps E cached) s =
     (if cached \<and> maps_cache s \<noteq> [] then (maps_cache s, s)
      else (maps_contents E (history s),
        s\<lparr>history := history s @ [Ev_open_file ''/proc/self/maps''
             (env_file E (history s) ''/proc/self/maps'' \<noteq> None)],
          maps_cache := maps_contents E (history s)\<rparr>))"
  by (rule run_parseSelfMaps)

text \<open>
  Two reads. After a read that found an entry, a cached read answers the same in the same
  state, whatever the file holds by then.
\<close>

theorem parseSelfMountinfo_again:
  assumes "run_state (parseSelfMountinfo E cached) s = (es, t)" and "es \<noteq> []"
  shows "run_state (parseSelfMountinfo E' True) t = (es, t)"
proof -
  have "mountinfo_cache t = es"
    using assms(1) self_mountinfo.read_result_cached [of E cached s] by simp
  with assms(2) show ?thesis using self_mountinfo.read_hit [of t] by simp
qed

definition one_mount :: mountinfo_entry where
  "one_mount = make_entry 20 1 0 ''/'' ''/'' ''ro'' [] ''ext4'' ''/dev/root'' ''ro''"

theorem parseSelfMountinfo_again_witness:
  "fst (run_state (parseSelfMountinfo calm_env True) (fresh_process\<lparr>mountinfo_cache := [one_mount]\<rparr>)) =
     [one_mount]"
proof -
  have "run_state (parseSelfMountinfo calm_env True) (fresh_process\<lparr>mountinfo_cache := [one_mount]\<rparr>) =
      ([one_mount], fresh_process\<lparr>mountinfo_cache := [one_mount]\<rparr>)"
    by (simp add: parseSelfMountinfo_def)
  from parseSelfMountinfo_again [OF this] show ?thesis by simp
qed

end
