(* ===== verification/Zygisk_Api.thy ===== *)
theory Zygisk_Api
  imports Proc_Self
begin

text \<open>
  \<open>zygisk.hpp\<close>: the state flags, the arguments of a specialization, the inline wrappers of
  \<open>Api\<close> around the function table, which answer a default when a function is missing, and
  the table of handlers a module registers with the framework.
\<close>

section \<open>Flags and arguments\<close>

definition PROCESS_GRANTED_ROOT :: u32 where "PROCESS_GRANTED_ROOT = 1"

definition PROCESS_ON_DENYLIST :: u32 where "PROCESS_ON_DENYLIST = 2"

text \<open>
  The arguments of a specialization. A reference to a Java object is an opaque number; the
  optional arguments are pointers that may be null.
\<close>

type_synonym jobject = u64
type_synonym jlong = "64 word"

record AppSpecializeArgs =
  uid :: c_int
  gid :: c_int
  gids :: jobject
  runtime_flags :: c_int
  rlimits :: jobject
  mount_external :: c_int
  se_info :: jobject
  nice_name :: jobject
  instruction_set :: jobject
  app_data_dir :: jobject
  fds_to_ignore :: "jobject option"
  is_child_zygote :: "bool option"
  is_top_app :: "bool option"
  pkg_data_info_list :: "jobject option"
  whitelisted_data_info_list :: "jobject option"
  mount_data_dirs :: "bool option"
  mount_storage_dirs :: "bool option"

record ServerSpecializeArgs =
  server_uid :: c_int
  server_gid :: c_int
  server_gids :: jobject
  server_runtime_flags :: c_int
  permitted_capabilities :: jlong
  effective_capabilities :: jlong

section \<open>The wrappers\<close>

definition Api_connectCompanion :: "api_table \<Rightarrow> (proc, fd) state" where
  "Api_connectCompanion tbl =
     (case tbl_connectCompanion tbl of
        Some f \<Rightarrow> call f Ev_connectCompanion
      | None \<Rightarrow> State_Monad.return no_fd)"

definition Api_getModuleDir :: "api_table \<Rightarrow> (proc, fd) state" where
  "Api_getModuleDir tbl =
     (case tbl_getModuleDir tbl of
        Some f \<Rightarrow> call f Ev_getModuleDir
      | None \<Rightarrow> State_Monad.return no_fd)"

definition Api_setOption :: "api_table \<Rightarrow> zygisk_option \<Rightarrow> (proc, unit) state" where
  "Api_setOption tbl opt =
     (case tbl_setOption tbl of
        Some _ \<Rightarrow> emit (Ev_setOption opt)
      | None \<Rightarrow> State_Monad.return ())"

definition Api_getFlags :: "api_table \<Rightarrow> (proc, u32) state" where
  "Api_getFlags tbl =
     (case tbl_getFlags tbl of
        Some f \<Rightarrow> call f Ev_getFlags
      | None \<Rightarrow> State_Monad.return 0)"

definition Api_exemptFd :: "api_table \<Rightarrow> fd \<Rightarrow> (proc, bool) state" where
  "Api_exemptFd tbl f =
     (case tbl_exemptFd tbl of
        Some g \<Rightarrow> call (\<lambda>h. g h f) (Ev_exemptFd f)
      | None \<Rightarrow> State_Monad.return False)"

text \<open>The methods array is written by the framework: the wrapper returns it as it is then.\<close>

definition Api_hookJniNativeMethods ::
    "api_table \<Rightarrow> string \<Rightarrow> JNINativeMethod list \<Rightarrow> c_int \<Rightarrow> (proc, JNINativeMethod list) state" where
  "Api_hookJniNativeMethods tbl className methods numMethods =
     (case tbl_hookJniNativeMethods tbl of
        Some f \<Rightarrow> call (\<lambda>h. f h className methods numMethods)
          (\<lambda>_. Ev_hookJniNativeMethods className numMethods)
      | None \<Rightarrow> State_Monad.return methods)"

text \<open>
  Registering a hook hands Zygisk a pointer to the static variable that the original
  function is saved in; the variable is written by the next commit.
\<close>

definition Api_pltHookRegister ::
    "api_table \<Rightarrow> dev_t \<Rightarrow> ino_t \<Rightarrow> string \<Rightarrow> hook_fn \<Rightarrow> slot option \<Rightarrow> (proc, unit) state" where
  "Api_pltHookRegister tbl dev ino symbol newFunc oldFunc =
     (case tbl_pltHookRegister tbl of
        Some _ \<Rightarrow> do {
          emit (Ev_pltHookRegister dev ino symbol newFunc oldFunc);
          modify (plt_pending_update (\<lambda>p. case oldFunc of None \<Rightarrow> p | Some sl \<Rightarrow> p @ [sl])) }
      | None \<Rightarrow> State_Monad.return ())"

definition save_slot :: "(slot \<Rightarrow> u64 option) \<Rightarrow> slot \<Rightarrow> proc \<Rightarrow> proc" where
  "save_slot saved sl s =
     (case saved sl of
        None \<Rightarrow> s
      | Some p \<Rightarrow> (case sl of
            Slot_unshare \<Rightarrow> s\<lparr>old_unshare := Some p\<rparr>
          | Slot_setresuid \<Rightarrow> s\<lparr>old_setresuid := Some p\<rparr>))"

definition Api_pltHookCommit :: "api_table \<Rightarrow> (proc, bool) state" where
  "Api_pltHookCommit tbl =
     (case tbl_pltHookCommit tbl of
        Some f \<Rightarrow> do {
          (ok, saved) \<leftarrow> State (\<lambda>s. (f (history s), s));
          modify (\<lambda>s. fold (save_slot saved) (plt_pending s) s\<lparr>plt_pending := []\<rparr>);
          emit (Ev_pltHookCommit ok);
          State_Monad.return ok }
      | None \<Rightarrow> State_Monad.return False)"

section \<open>Modules and their registration\<close>

text \<open>
  The virtual methods of \<open>ModuleBase\<close>, with the result of a handler as in \<open>Main_Module\<close>: \<open>None\<close>
  is a call through a null pointer. The defaults do nothing.
\<close>

record ModuleBase =
  vt_onLoad :: "api_table \<Rightarrow> (proc, unit) state"
  vt_preAppSpecialize :: "AppSpecializeArgs \<Rightarrow> (proc, unit option) state"
  vt_postAppSpecialize :: "AppSpecializeArgs \<Rightarrow> (proc, unit option) state"
  vt_preServerSpecialize :: "ServerSpecializeArgs \<Rightarrow> (proc, unit option) state"
  vt_postServerSpecialize :: "ServerSpecializeArgs \<Rightarrow> (proc, unit option) state"

definition ModuleBase_defaults :: ModuleBase where
  "ModuleBase_defaults = \<lparr>vt_onLoad = (\<lambda>api. State_Monad.return ()),
     vt_preAppSpecialize = (\<lambda>args. State_Monad.return (Some ())),
     vt_postAppSpecialize = (\<lambda>args. State_Monad.return (Some ())),
     vt_preServerSpecialize = (\<lambda>args. State_Monad.return (Some ())),
     vt_postServerSpecialize = (\<lambda>args. State_Monad.return (Some ()))\<rparr>"

definition ZYGISK_API_VERSION :: int where "ZYGISK_API_VERSION = 4"

text \<open>What a module registers: its object and a function per handler that takes the object.\<close>

record module_abi =
  api_version :: int
  abi_impl :: ModuleBase
  abi_preAppSpecialize :: "ModuleBase \<Rightarrow> AppSpecializeArgs \<Rightarrow> (proc, unit option) state"
  abi_postAppSpecialize :: "ModuleBase \<Rightarrow> AppSpecializeArgs \<Rightarrow> (proc, unit option) state"
  abi_preServerSpecialize :: "ModuleBase \<Rightarrow> ServerSpecializeArgs \<Rightarrow> (proc, unit option) state"
  abi_postServerSpecialize :: "ModuleBase \<Rightarrow> ServerSpecializeArgs \<Rightarrow> (proc, unit option) state"

definition make_module_abi :: "ModuleBase \<Rightarrow> module_abi" where
  "make_module_abi module = \<lparr>api_version = ZYGISK_API_VERSION, abi_impl = module,
     abi_preAppSpecialize = (\<lambda>m args. vt_preAppSpecialize m args),
     abi_postAppSpecialize = (\<lambda>m args. vt_postAppSpecialize m args),
     abi_preServerSpecialize = (\<lambda>m args. vt_preServerSpecialize m args),
     abi_postServerSpecialize = (\<lambda>m args. vt_postServerSpecialize m args)\<rparr>"

text \<open>
  The module's object is static and so is its \<open>module_abi\<close>, whose address the framework keeps
  when it accepts the registration.
\<close>

definition entry_impl :: "ModuleBase \<Rightarrow> api_table \<Rightarrow> (proc, unit) state" where
  "entry_impl module table = do {
     ok \<leftarrow> call (tbl_registerModule table) Ev_registerModule;
     if \<not> ok then State_Monad.return ()
     else vt_onLoad module table }"

section \<open>Defaults\<close>

definition null_table :: "(history \<Rightarrow> bool) \<Rightarrow> api_table" where
  "null_table reg = \<lparr>tbl_registerModule = reg, tbl_hookJniNativeMethods = None, tbl_pltHookRegister = None, tbl_exemptFd = None,
     tbl_pltHookCommit = None, tbl_connectCompanion = None, tbl_setOption = None,
     tbl_getModuleDir = None, tbl_getFlags = None\<rparr>"

lemma save_slot_history [simp]: "history (save_slot saved sl s) = history s"
  by (simp add: save_slot_def split: option.split slot.split)

lemma fold_save_slot_history [simp]: "history (fold (save_slot saved) sls s) = history s"
  by (induction sls arbitrary: s) simp_all

lemmas api_defs [run_simps] = Api_connectCompanion_def Api_getModuleDir_def Api_setOption_def
  Api_getFlags_def Api_exemptFd_def Api_hookJniNativeMethods_def Api_pltHookRegister_def Api_pltHookCommit_def

section \<open>Properties\<close>

text \<open>
  A framework that hands over a table of null pointers. Every wrapper returns its default
  and leaves the process as it was: no call is made through a null pointer.
\<close>

theorem null_table_defaults:
  "run_state (Api_connectCompanion (null_table reg)) s = (Fd (- 1), s)
   \<and> run_state (Api_getModuleDir (null_table reg)) s = (Fd (- 1), s)
   \<and> run_state (Api_setOption (null_table reg) opt) s = ((), s)
   \<and> run_state (Api_getFlags (null_table reg)) s = (0, s)
   \<and> run_state (Api_exemptFd (null_table reg) f) s = (False, s)
   \<and> run_state (Api_hookJniNativeMethods (null_table reg) cls ms n) s = (ms, s)
   \<and> run_state (Api_pltHookRegister (null_table reg) dev ino symbol new old) s = ((), s)
   \<and> run_state (Api_pltHookCommit (null_table reg)) s = (False, s)"
  by (simp add: null_table_def api_defs)

text \<open>
  Loading. The handler of the module runs exactly when the framework accepted its
  registration; a refused module did nothing.
\<close>

theorem entry_impl_registers:
  "run_state (entry_impl module table) s =
     (let ok = tbl_registerModule table (history s);
          s' = s\<lparr>history := history s @ [Ev_registerModule ok]\<rparr> in
      if ok then run_state (vt_onLoad module table) s' else ((), s'))"
  by (simp add: entry_impl_def Let_def)

end
