(* ===== verification/Android_Ids.thy ===== *)
theory Android_Ids
  imports Prelude
begin

text \<open>
  \<open>android_filesystem_config.h\<close>: the numbers Android gives to users and groups, as tables of
  names and values in the order of the header, and the ranges it reserves. Values are those of
  the first user; a later user's are \<open>AID_USER_OFFSET\<close> apart.
\<close>

section \<open>Users and groups of the platform\<close>

definition system_ids :: "(string \<times> int) list" where
  "system_ids =
     [(''AID_ROOT'', 0), (''AID_DAEMON'', 1), (''AID_BIN'', 2), (''AID_SYS'', 3),
      (''AID_SYSTEM'', 1000), (''AID_RADIO'', 1001), (''AID_BLUETOOTH'', 1002),
      (''AID_GRAPHICS'', 1003), (''AID_INPUT'', 1004), (''AID_AUDIO'', 1005),
      (''AID_CAMERA'', 1006), (''AID_LOG'', 1007), (''AID_COMPASS'', 1008), (''AID_MOUNT'', 1009),
      (''AID_WIFI'', 1010), (''AID_ADB'', 1011), (''AID_INSTALL'', 1012), (''AID_MEDIA'', 1013),
      (''AID_DHCP'', 1014), (''AID_SDCARD_RW'', 1015), (''AID_VPN'', 1016),
      (''AID_KEYSTORE'', 1017), (''AID_USB'', 1018), (''AID_DRM'', 1019), (''AID_MDNSR'', 1020),
      (''AID_GPS'', 1021), (''AID_UNUSED1'', 1022), (''AID_MEDIA_RW'', 1023), (''AID_MTP'', 1024),
      (''AID_UNUSED2'', 1025), (''AID_DRMRPC'', 1026), (''AID_NFC'', 1027),
      (''AID_SDCARD_R'', 1028), (''AID_CLAT'', 1029), (''AID_LOOP_RADIO'', 1030),
      (''AID_MEDIA_DRM'', 1031), (''AID_PACKAGE_INFO'', 1032), (''AID_SDCARD_PICS'', 1033),
      (''AID_SDCARD_AV'', 1034), (''AID_SDCARD_ALL'', 1035), (''AID_LOGD'', 1036),
      (''AID_SHARED_RELRO'', 1037), (''AID_DBUS'', 1038), (''AID_TLSDATE'', 1039),
      (''AID_MEDIA_EX'', 1040), (''AID_AUDIOSERVER'', 1041), (''AID_METRICS_COLL'', 1042),
      (''AID_METRICSD'', 1043), (''AID_WEBSERV'', 1044), (''AID_DEBUGGERD'', 1045),
      (''AID_MEDIA_CODEC'', 1046), (''AID_CAMERASERVER'', 1047), (''AID_FIREWALL'', 1048),
      (''AID_TRUNKS'', 1049), (''AID_NVRAM'', 1050), (''AID_DNS'', 1051),
      (''AID_DNS_TETHER'', 1052), (''AID_WEBVIEW_ZYGOTE'', 1053), (''AID_VEHICLE_NETWORK'', 1054),
      (''AID_MEDIA_AUDIO'', 1055), (''AID_MEDIA_VIDEO'', 1056), (''AID_MEDIA_IMAGE'', 1057),
      (''AID_TOMBSTONED'', 1058), (''AID_MEDIA_OBB'', 1059), (''AID_ESE'', 1060),
      (''AID_OTA_UPDATE'', 1061), (''AID_AUTOMOTIVE_EVS'', 1062), (''AID_LOWPAN'', 1063),
      (''AID_HSM'', 1064), (''AID_RESERVED_DISK'', 1065), (''AID_STATSD'', 1066),
      (''AID_INCIDENTD'', 1067), (''AID_SECURE_ELEMENT'', 1068), (''AID_LMKD'', 1069),
      (''AID_LLKD'', 1070), (''AID_IORAPD'', 1071), (''AID_GPU_SERVICE'', 1072),
      (''AID_NETWORK_STACK'', 1073), (''AID_GSID'', 1074), (''AID_FSVERITY_CERT'', 1075),
      (''AID_CREDSTORE'', 1076), (''AID_EXTERNAL_STORAGE'', 1077), (''AID_EXT_DATA_RW'', 1078),
      (''AID_EXT_OBB_RW'', 1079), (''AID_CONTEXT_HUB'', 1080),
      (''AID_VIRTUALIZATIONSERVICE'', 1081), (''AID_ARTD'', 1082), (''AID_UWB'', 1083),
      (''AID_THREAD_NETWORK'', 1084), (''AID_DICED'', 1085), (''AID_DMESGD'', 1086),
      (''AID_JC_WEAVER'', 1087), (''AID_JC_STRONGBOX'', 1088), (''AID_JC_IDENTITYCRED'', 1089),
      (''AID_SDK_SANDBOX'', 1090), (''AID_SECURITY_LOG_WRITER'', 1091),
      (''AID_PRNG_SEEDER'', 1092), (''AID_SHELL'', 2000), (''AID_CACHE'', 2001),
      (''AID_DIAG'', 2002), (''AID_NET_BT_ADMIN'', 3001), (''AID_NET_BT'', 3002),
      (''AID_INET'', 3003), (''AID_NET_RAW'', 3004), (''AID_NET_ADMIN'', 3005),
      (''AID_NET_BW_STATS'', 3006), (''AID_NET_BW_ACCT'', 3007), (''AID_READPROC'', 3009),
      (''AID_WAKELOCK'', 3010), (''AID_UHID'', 3011), (''AID_READTRACEFS'', 3012)]"

definition shared_ids :: "(string \<times> int) list" where
  "shared_ids =
     [(''AID_EVERYBODY'', 9997), (''AID_MISC'', 9998), (''AID_NOBODY'', 9999), (''AID_APP'', 10000)]"

definition AID_OVERFLOWUID :: int where "AID_OVERFLOWUID = 65534"
definition AID_USER :: int where "AID_USER = 100000"
definition AID_USER_OFFSET :: int where "AID_USER_OFFSET = 100000"

section \<open>Ranges\<close>

definition AID_OEM_RESERVED_START :: int where "AID_OEM_RESERVED_START = 2900"
definition AID_OEM_RESERVED_END :: int where "AID_OEM_RESERVED_END = 2999"

definition partition_ranges :: "(string \<times> int \<times> int) list" where
  "partition_ranges =
     [(''AID_OEM_RESERVED_2'', 5000, 5999),
      (''AID_SYSTEM_RESERVED'', 6000, 6499),
      (''AID_ODM_RESERVED'', 6500, 6999),
      (''AID_PRODUCT_RESERVED'', 7000, 7499),
      (''AID_SYSTEM_EXT_RESERVED'', 7500, 7999)]"

definition AID_APP_START :: int where "AID_APP_START = 10000"
definition AID_APP_END :: int where "AID_APP_END = 19999"

definition gid_ranges :: "(string \<times> int \<times> int) list" where
  "gid_ranges =
     [(''AID_CACHE_GID'', 20000, 29999),
      (''AID_EXT_GID'', 30000, 39999),
      (''AID_EXT_CACHE_GID'', 40000, 49999),
      (''AID_SHARED_GID'', 50000, 59999)]"

definition AID_SDK_SANDBOX_PROCESS_START :: int where "AID_SDK_SANDBOX_PROCESS_START = 20000"
definition AID_SDK_SANDBOX_PROCESS_END :: int where "AID_SDK_SANDBOX_PROCESS_END = 29999"
definition AID_ISOLATED_START :: int where "AID_ISOLATED_START = 90000"
definition AID_ISOLATED_END :: int where "AID_ISOLATED_END = 99999"

lemmas AID_defs = AID_APP_START_def AID_APP_END_def AID_ISOLATED_START_def
  AID_ISOLATED_END_def AID_USER_OFFSET_def

text \<open>All single numbers, and all ranges.\<close>

definition android_ids :: "(string \<times> int) list" where
  "android_ids = system_ids @ shared_ids
     @ [(''AID_OVERFLOWUID'', AID_OVERFLOWUID), (''AID_USER'', AID_USER)]"

definition android_ranges :: "(string \<times> int \<times> int) list" where
  "android_ranges =
     (''AID_OEM_RESERVED'', AID_OEM_RESERVED_START, AID_OEM_RESERVED_END) # partition_ranges @ gid_ranges
     @ [(''AID_APP'', AID_APP_START, AID_APP_END),
        (''AID_SDK_SANDBOX_PROCESS'', AID_SDK_SANDBOX_PROCESS_START, AID_SDK_SANDBOX_PROCESS_END),
        (''AID_ISOLATED'', AID_ISOLATED_START, AID_ISOLATED_END)]"

lemmas android_defs = AID_defs android_ids_def android_ranges_def system_ids_def shared_ids_def
  partition_ranges_def gid_ranges_def AID_OVERFLOWUID_def AID_USER_def
  AID_OEM_RESERVED_START_def AID_OEM_RESERVED_END_def AID_SDK_SANDBOX_PROCESS_START_def
  AID_SDK_SANDBOX_PROCESS_END_def

section \<open>Which numbers are those of apps\<close>

text \<open>The numbers a user id is tested for: \<open>app\<close> is what is left of it modulo the offset.\<close>

abbreviation app_number :: "int \<Rightarrow> bool" where
  "app_number app \<equiv> app \<in> {10000..19999} \<or> app \<in> {90000..99999}"

lemma android_ids_apps:
  "list_all (\<lambda>(name, a). 0 \<le> a
     \<and> app_number (a mod AID_USER_OFFSET) = (name \<in> {''AID_APP'', ''AID_ISOLATED''})) android_ids"
  by (simp add: android_defs)

text \<open>A range lies in one of the blocks of app numbers, or outside of both.\<close>

lemma android_ranges_blocks:
  "list_all (\<lambda>(name, lo, hi). 0 \<le> lo \<and> hi < AID_USER_OFFSET
     \<and> (if name = ''AID_APP'' \<or> name = ''AID_ISOLATED''
        then 10000 \<le> lo \<and> hi \<le> 19999 \<or> 90000 \<le> lo \<and> hi \<le> 99999
        else hi < 10000 \<or> 19999 < lo \<and> hi < 90000)) android_ranges"
  by code_simp

lemma android_ranges_apps:
  assumes "(name, lo, hi) \<in> set android_ranges" and "lo \<le> a" and "a \<le> hi"
  shows "0 \<le> a \<and> a < AID_USER_OFFSET \<and> (app_number a \<longleftrightarrow> name \<in> {''AID_APP'', ''AID_ISOLATED''})"
proof -
  have "0 \<le> lo \<and> hi < AID_USER_OFFSET
     \<and> (if name = ''AID_APP'' \<or> name = ''AID_ISOLATED''
        then 10000 \<le> lo \<and> hi \<le> 19999 \<or> 90000 \<le> lo \<and> hi \<le> 99999
        else hi < 10000 \<or> 19999 < lo \<and> hi < 90000)"
    using android_ranges_blocks assms(1) unfolding list_all_iff by blast
  then show ?thesis using assms(2,3) by (simp split: if_splits) linarith+
qed

text \<open>No number is given out twice, and none of the platform's lies in a reserved range.\<close>

lemma system_ids_ascending: "sorted_wrt (<) (map snd system_ids)"
  by (simp add: system_ids_def sorted_wrt2_simps del: sorted_wrt.simps)

lemma system_ids_unreserved:
  "list_all (\<lambda>(name, a). list_all (\<lambda>(range, lo, hi). a < lo \<or> hi < a) android_ranges) system_ids"
  by code_simp

end
