(* ===== verification/Utils.thy ===== *)
theory Utils
  imports Zygisk_Api Android_Ids "HOL-Library.Signed_Division"
begin

text \<open>
  \<open>utils.cpp\<close>: the bounded string copy on character arrays, the PLT hook by library name,
  the user-app test on uids, entering a mount namespace, running a function in a forked
  child, and the error behaviour stored in an ext2/3/4 superblock.
\<close>

section \<open>C strings in character arrays\<close>

text \<open>
  An array is a list of its bytes; \<open>None\<close> is an access outside an array. \<open>strncat\<close> appends
  at most \<open>n\<close> characters of \<open>src\<close> and a terminator.
\<close>

abbreviation NUL :: char where "NUL \<equiv> CHR 0x00"

definition c_strlen :: "char list \<Rightarrow> nat option" where
  "c_strlen s = (if NUL \<in> set s then Some (length (takeWhile (\<lambda>c. c \<noteq> NUL) s)) else None)"

definition c_strncat :: "char list \<Rightarrow> char list \<Rightarrow> nat \<Rightarrow> char list option" where
  "c_strncat dest src n =
     (case c_strlen dest of
        None \<Rightarrow> None
      | Some pos \<Rightarrow>
          let cs = takeWhile (\<lambda>c. c \<noteq> NUL) (take n src) in
          if length src < n \<and> NUL \<notin> set src then None
          else if length dest < pos + length cs + 1 then None
          else Some (take pos dest @ cs @ NUL # drop (pos + length cs + 1) dest))"

definition safeStringCopy :: "char list \<Rightarrow> char list \<Rightarrow> nat \<Rightarrow> (char list \<times> nat) option" where
  "safeStringCopy dest src dest_size =
     (if dest_size < 1 then Some (dest, 0)
      else if dest = [] then None
      else case c_strncat (dest[0 := NUL]) src (dest_size - 1) of
             None \<Rightarrow> None
           | Some dest' \<Rightarrow> map_option (\<lambda>n. (dest', n)) (c_strlen dest'))"

section \<open>Hooking a function of a loaded library\<close>

primrec register_first_map ::
    "api_table \<Rightarrow> string \<Rightarrow> string \<Rightarrow> hook_fn \<Rightarrow> slot option \<Rightarrow> u64 map_entry list \<Rightarrow> (proc, bool) state" where
  "register_first_map api libName symbolName hookFunc origFunc [] = State_Monad.return False"
| "register_first_map api libName symbolName hookFunc origFunc (m # maps) =
     (if ends_with (pathname m) (''/'' @ libName) then do {
        Api_pltHookRegister api (map_device m) (inode m) symbolName hookFunc origFunc;
        State_Monad.return True }
      else register_first_map api libName symbolName hookFunc origFunc maps)"

definition hookPLTByName ::
    "env \<Rightarrow> api_table \<Rightarrow> string \<Rightarrow> string \<Rightarrow> hook_fn \<Rightarrow> slot option \<Rightarrow> (proc, bool) state" where
  "hookPLTByName E api libName symbolName hookFunc origFunc = do {
     maps \<leftarrow> parseSelfMaps E True;
     register_first_map api libName symbolName hookFunc origFunc maps }"

section \<open>User app uids\<close>

text \<open>\<open>smod\<close> is the C remainder, with the sign of the dividend.\<close>

definition isUserAppUID :: "c_int \<Rightarrow> bool" where
  "isUserAppUID u =
     (let appid = sint u smod AID_USER_OFFSET in
      if appid \<ge> AID_APP_START \<and> appid \<le> AID_APP_END then True
      else if appid \<ge> AID_ISOLATED_START \<and> appid \<le> AID_ISOLATED_END then True
      else False)"

section \<open>Namespaces and child processes\<close>

definition switchMountNS :: "env \<Rightarrow> c_int \<Rightarrow> (proc, bool) state" where
  "switchMountNS E pid = do {
     let path = ''/proc/'' @ to_string pid @ ''/ns/mnt'';
     f \<leftarrow> sys_open E path;
     if sint (fd_num f) < 0 then State_Monad.return False
     else do {
       ret \<leftarrow> sys_setns E f;
       sys_close f;
       State_Monad.return (ret = 0) } }"

text \<open>
  The child runs the function on its own copy of the process and exits with its result;
  the parent continues from its own state, after everything the child did. The status
  variable keeps its initial \<open>-1\<close> when \<open>waitpid\<close> fails.
\<close>

definition run_child :: "(proc, c_int) state \<Rightarrow> (proc, unit) state" where
  "run_child lambda = modify (\<lambda>s.
     let (code, child) = run_state lambda s
     in s\<lparr>history := history child @ [Ev_exit code]\<rparr>)"

definition forkAndInvoke :: "env \<Rightarrow> (proc, c_int) state \<Rightarrow> (proc, c_int) state" where
  "forkAndInvoke E lambda = do {
     pid \<leftarrow> call (env_fork E) Ev_fork;
     if pid = - 1 then State_Monad.return (- 1)
     else do {
       run_child lambda;
       call (\<lambda>h. case env_waitpid E h pid of None \<Rightarrow> - 1 | Some status \<Rightarrow> status)
         (Ev_waitpid pid) } }"

definition WIFEXITED :: "c_int \<Rightarrow> bool" where
  "WIFEXITED status \<longleftrightarrow> status AND 127 = 0"

section \<open>The superblock of an ext file system\<close>

definition EXT_SUPERBLOCK_OFFSET :: nat where "EXT_SUPERBLOCK_OFFSET = 1024"
definition EXT_MAGIC_OFFSET :: nat where "EXT_MAGIC_OFFSET = 56"
definition EXT_ERRORS_OFFSET :: nat where "EXT_ERRORS_OFFSET = 60"
definition EXT_MAGIC :: u16 where "EXT_MAGIC = 61267"

lemmas EXT_defs = EXT_SUPERBLOCK_OFFSET_def EXT_MAGIC_OFFSET_def EXT_ERRORS_OFFSET_def
  EXT_MAGIC_def

text \<open>
  Seek, read two bytes, fail when fewer arrive; \<open>le16toh\<close> makes the value little endian on
  every host.
\<close>

definition read_le16 :: "string \<Rightarrow> nat \<Rightarrow> u16 option" where
  "read_le16 bs off =
     (if off + 2 \<le> length bs then Some (of_char (bs ! off) + 256 * of_char (bs ! (off + 1)))
      else None)"

definition superblock_errors :: "string \<Rightarrow> string option" where
  "superblock_errors bytes = do {
     magic \<leftarrow> read_le16 bytes (EXT_SUPERBLOCK_OFFSET + EXT_MAGIC_OFFSET);
     if magic \<noteq> EXT_MAGIC then None
     else do {
       errors \<leftarrow> read_le16 bytes (EXT_SUPERBLOCK_OFFSET + EXT_ERRORS_OFFSET);
       if errors = 1 then Some ''continue''
       else if errors = 2 then Some ''remount-ro''
       else if errors = 3 then Some ''panic''
       else None } }"

definition getExtErrorsBehavior :: "env \<Rightarrow> mountinfo_entry \<Rightarrow> (proc, string option) state" where
  "getExtErrorsBehavior E entry =
     (let fs_type = filesystem_type entry in
      if fs_type \<noteq> ''ext2'' \<and> fs_type \<noteq> ''ext3'' \<and> fs_type \<noteq> ''ext4'' then State_Monad.return None
      else do {
        file \<leftarrow> open_file E (mount_source entry);
        State_Monad.return (Option.bind file superblock_errors) })"

section \<open>What the helpers do\<close>

lemma c_strncat_empty:
  assumes "dest \<noteq> []" and "m < length dest" and "NUL \<in> set src \<or> m \<le> length src"
  defines "t \<equiv> takeWhile (\<lambda>c. c \<noteq> NUL) (take m src)"
  shows "c_strncat (dest[0 := NUL]) src m = Some (t @ NUL # drop (length t + 1) dest)"
proof -
  have "length t \<le> m"
    unfolding t_def by (rule order_trans [OF length_takeWhile_le]) simp
  moreover have "dest[0 := NUL] = NUL # drop 1 dest"
    using assms(1) by (cases dest) simp_all
  moreover have "\<not> (length src < m \<and> NUL \<notin> set src)"
    using assms(3) by auto
  ultimately show ?thesis
    using assms(1,2) by (simp add: c_strncat_def c_strlen_def Let_def flip: t_def)
qed

lemma safeStringCopy_result:
  assumes "0 < n" and "n \<le> length dest" and "NUL \<in> set src \<or> n - 1 \<le> length src"
  defines "t \<equiv> takeWhile (\<lambda>c. c \<noteq> NUL) (take (n - 1) src)"
  shows "safeStringCopy dest src n = Some (t @ NUL # drop (length t + 1) dest, length t)"
proof -
  have "dest \<noteq> []" and "n - 1 < length dest" using assms(1,2) by auto
  then have "c_strncat (dest[0 := NUL]) src (n - 1) = Some (t @ NUL # drop (length t + 1) dest)"
    unfolding t_def using assms(3) by (rule c_strncat_empty)
  moreover have "list_all (\<lambda>c. c \<noteq> NUL) t"
    by (auto simp: t_def list_all_iff dest: set_takeWhileD)
  ultimately show ?thesis
    using assms(1) \<open>dest \<noteq> []\<close>
    by (simp add: safeStringCopy_def c_strlen_def takeWhile_stop)
qed

lemma isUserAppUID_iff:
  "isUserAppUID u \<longleftrightarrow>
     0 \<le> sint u \<and> (sint u mod 100000 \<in> {10000..19999} \<or> sint u mod 100000 \<in> {90000..99999})"
proof (cases "0 \<le> sint u")
  case True
  then have "sint u smod 100000 = sint u mod 100000"
    by (simp add: smod_int_alt_def sgn_if)
  with True show ?thesis
    by (simp add: isUserAppUID_def Let_def AID_defs)
next
  case False
  then have "sint u smod 100000 \<le> 0"
    by (simp add: smod_int_compares)
  with False show ?thesis
    by (simp add: isUserAppUID_def Let_def AID_defs)
qed

text \<open>The uid of a number of some user is that of an app when the number is.\<close>

lemma isUserAppUID_of_user:
  assumes "0 \<le> user" and "0 \<le> a" and "user * AID_USER_OFFSET + a < 2 ^ 31"
  shows "isUserAppUID (word_of_int (user * AID_USER_OFFSET + a)) \<longleftrightarrow> app_number (a mod AID_USER_OFFSET)"
proof -
  define x where "x = user * AID_USER_OFFSET + a"
  have "0 \<le> x" using assms(1,2) by (simp add: x_def AID_USER_OFFSET_def)
  have "sint (word_of_int x :: c_int) = signed_take_bit 31 x"
    by transfer simp
  also have "\<dots> = x"
    using \<open>0 \<le> x\<close> assms(3) by (simp add: signed_take_bit_int_eq_self x_def)
  finally show ?thesis
    using \<open>0 \<le> x\<close> by (simp add: isUserAppUID_iff x_def AID_USER_OFFSET_def)
qed

lemma register_first_map_find:
  "register_first_map api lib symbol hook orig ms =
     (case find (\<lambda>m. ends_with (pathname m) (''/'' @ lib)) ms of
        None \<Rightarrow> State_Monad.return False
      | Some m \<Rightarrow> do {
          Api_pltHookRegister api (map_device m) (inode m) symbol hook orig;
          State_Monad.return True })"
  by (induction ms) simp_all

lemma WIFEXITED_error: "\<not> WIFEXITED (- 1)"
  by (simp add: WIFEXITED_def)

lemma WIFEXITED_exit: "WIFEXITED (push_bit 8 (code AND 255))"
proof -
  have "push_bit 8 (code AND 255) AND mask 7 = (0 :: c_int)"
    by (rule bit_eqI) (auto simp: bit_simps)
  then show ?thesis by (simp add: WIFEXITED_def mask_numeral)
qed

lemma le16_value:
  "(of_char a + 256 * of_char b :: u16) = word_of_nat n \<longleftrightarrow> of_char a + 256 * of_char b = n"
  if "n < 65536" for n :: nat
proof -
  have "of_char a + 256 * of_char b < (65536 :: nat)"
    using nat_of_char_less_256 [of a] nat_of_char_less_256 [of b] by linarith
  then have "(word_of_nat (of_char a + 256 * of_char b) :: u16) = word_of_nat n \<longleftrightarrow>
      of_char a + 256 * of_char b = n"
    using that by (simp only: word_of_nat_eq_iff) (simp add: take_bit_eq_mod)
  then show ?thesis by (simp add: of_nat_of_char)
qed

lemma byte_pair_eq:
  assumes "(a :: nat) < 256" and "x < 256"
  shows "a + 256 * b = x + 256 * y \<longleftrightarrow> a = x \<and> b = y"
proof
  assume eq: "a + 256 * b = x + 256 * y"
  then have "(a + 256 * b) mod 256 = (x + 256 * y) mod 256" by simp
  with assms have "a = x" by simp
  with eq show "a = x \<and> b = y" by simp
qed simp

lemma read_le16_eq:
  assumes "x < 256" and "y < 256"
  shows "read_le16 bs off = Some (word_of_nat (x + 256 * y)) \<longleftrightarrow>
    off + 2 \<le> length bs \<and> of_char (bs ! off) = x \<and> of_char (bs ! (off + 1)) = y"
proof -
  have "x + 256 * y < 65536" using assms by linarith
  then show ?thesis
    using assms by (simp add: read_le16_def le16_value byte_pair_eq del: of_nat_add of_nat_mult)
qed

lemmas le16_bytes = read_le16_eq [of 83 239, simplified] read_le16_eq [of 1 0, simplified]
  read_le16_eq [of 2 0, simplified] read_le16_eq [of 3 0, simplified]

lemma superblock_errors_Some:
  "superblock_errors bytes = Some b \<longleftrightarrow>
     1086 \<le> length bytes
     \<and> of_char (bytes ! 1080) = (83 :: nat) \<and> of_char (bytes ! 1081) = (239 :: nat)
     \<and> of_char (bytes ! 1085) = (0 :: nat)
     \<and> (of_char (bytes ! 1084) :: nat, b) \<in> {(1, ''continue''), (2, ''remount-ro''), (3, ''panic'')}"
proof -
  have "superblock_errors bytes = Some b \<longleftrightarrow>
      read_le16 bytes 1080 = Some 61267
      \<and> (read_le16 bytes 1084 = Some 1 \<and> b = ''continue''
        \<or> read_le16 bytes 1084 = Some 2 \<and> b = ''remount-ro''
        \<or> read_le16 bytes 1084 = Some 3 \<and> b = ''panic'')"
    by (auto simp: superblock_errors_def EXT_defs split: Option.bind_splits if_splits)
  moreover have len: "1086 \<le> length bytes \<Longrightarrow> 1082 \<le> length bytes" by simp
  ultimately show ?thesis by (simp add: le16_bytes) (use len in blast)
qed

lemma getExtErrorsBehavior_result:
  "fst (run_state (getExtErrorsBehavior E e) s) =
     (if filesystem_type e \<in> {''ext2'', ''ext3'', ''ext4''}
      then Option.bind (env_file E (history s) (mount_source e)) superblock_errors else None)"
  by (simp add: getExtErrorsBehavior_def run_simps Let_def)

section \<open>Effects of the helpers\<close>

text \<open>Which events each helper may append, for the properties of its callers.\<close>

fun api_event :: "event \<Rightarrow> bool" where
  "api_event (Ev_setOption _) = True"
| "api_event (Ev_getFlags _) = True"
| "api_event (Ev_connectCompanion _) = True"
| "api_event (Ev_exemptFd _ _) = True"
| "api_event (Ev_pltHookRegister _ _ _ _ _) = True"
| "api_event (Ev_pltHookCommit _) = True"
| "api_event (Ev_open_file p _) = (p = ''/proc/self/maps'')"
| "api_event _ = False"

lemma emits_parseSelfMaps [emits_intros]:
  "(\<And>ok. P (Ev_open_file ''/proc/self/maps'' ok)) \<Longrightarrow> emits P (parseSelfMaps E cached)"
  by (rule emits_mono [OF self_maps.read_emits]) auto

lemma emits_parseSelfMountinfo [emits_intros]:
  "(\<And>ok. P (Ev_open_file ''/proc/self/mountinfo'' ok)) \<Longrightarrow> emits P (parseSelfMountinfo E cached)"
  by (rule emits_mono [OF self_mountinfo.read_emits]) auto

lemma emits_pltHookRegister [emits_intros]:
  "P (Ev_pltHookRegister dev ino symbol hook orig) \<Longrightarrow>
     emits P (Api_pltHookRegister api dev ino symbol hook orig)"
  by (auto simp: Api_pltHookRegister_def intro!: emits_intros)

lemma emits_hookPLTByName [emits_intros]:
  assumes "\<And>ok. P (Ev_open_file ''/proc/self/maps'' ok)"
    and "\<And>dev ino. P (Ev_pltHookRegister dev ino symbol hook orig)"
  shows "emits P (hookPLTByName E api lib symbol hook orig)"
  using assms by (auto simp: hookPLTByName_def register_first_map_find intro!: emits_intros)

lemma emits_run_child [emits_intros]:
  assumes "emits P lambda" and "\<And>c. P (Ev_exit c)"
  shows "emits P (run_child lambda)"
proof (rule emitsI)
  fix s
  obtain code child where r: "run_state lambda s = (code, child)" by fastforce
  obtain es where "history child = history s @ es" and "list_all P es"
    using assms(1) r by (rule emitsD)
  with r assms(2) show "\<exists>es. history (snd (run_state (run_child lambda) s)) = history s @ es
      \<and> list_all P es"
    by (intro exI [of _ "es @ [Ev_exit code]"]) (simp add: run_child_def)
qed

lemma emits_forkAndInvoke [emits_intros]:
  assumes "emits P lambda" and "\<And>pid. P (Ev_fork pid)" and "\<And>c. P (Ev_exit c)"
    and "\<And>pid st. P (Ev_waitpid pid st)"
  shows "emits P (forkAndInvoke E lambda)"
  using assms by (auto simp: forkAndInvoke_def intro!: emits_intros)

text \<open>The parent keeps everything but the history: the child worked on a copy.\<close>

lemma forkAndInvoke_parent:
  "snd (run_state (forkAndInvoke E lambda) s) =
     s\<lparr>history := history (snd (run_state (forkAndInvoke E lambda) s))\<rparr>"
  by (simp add: forkAndInvoke_def run_child_def Let_def case_prod_beta)

section \<open>Properties\<close>

text \<open>
  C35: the bounded copy. When the array has the size the caller claims and the source is
  terminated or long enough, the copy stays inside both arrays, ends in a terminator, holds
  as much of the source text as fits, leaves the bytes behind it as they were, and returns the
  length of the text.
\<close>

theorem safeStringCopy_bounded:
  assumes "0 < n" and "n \<le> length dest" and "NUL \<in> set src \<or> n - 1 \<le> length src"
  defines "text \<equiv> takeWhile (\<lambda>c. c \<noteq> NUL) (take (n - 1) src)"
  shows "safeStringCopy dest src n = Some (text @ NUL # drop (length text + 1) dest, length text)
    \<and> length text < n"
proof
  show "safeStringCopy dest src n = Some (text @ NUL # drop (length text + 1) dest, length text)"
    unfolding text_def using assms(1-3) by (rule safeStringCopy_result)
  show "length text < n"
    using order_trans [OF length_takeWhile_le, of "take (n - 1) src" "n - 1" "\<lambda>c. c \<noteq> NUL"] assms(1)
    unfolding text_def by force
qed

theorem safeStringCopy_bounded_witness:
  "safeStringCopy ''........'' (''magisk'' @ [NUL]) 5 = Some (''magi'' @ NUL # ''...'', 4)"
  using safeStringCopy_bounded [of 5 "''........''" "''magisk'' @ [NUL]"] by simp

text \<open>
  C36: the uid test. For every 32-bit value, the C remainder included: an app or isolated
  process id of some user, and no negative uid.
\<close>

theorem isUserAppUID_spec:
  "isUserAppUID u \<longleftrightarrow>
     0 \<le> sint u \<and> (\<exists>user app. sint u = user * 100000 + app
       \<and> (app \<in> {10000..19999} \<or> app \<in> {90000..99999}))"
proof
  assume u: "isUserAppUID u"
  then have "sint u = sint u div 100000 * 100000 + sint u mod 100000" by simp
  with u show "0 \<le> sint u \<and> (\<exists>user app. sint u = user * 100000 + app
      \<and> (app \<in> {10000..19999} \<or> app \<in> {90000..99999}))"
    unfolding isUserAppUID_iff by blast
next
  assume "0 \<le> sint u \<and> (\<exists>user app. sint u = user * 100000 + app
      \<and> (app \<in> {10000..19999} \<or> app \<in> {90000..99999}))"
  then obtain user app where "0 \<le> sint u" and u: "sint u = user * 100000 + app"
    and app: "app \<in> {10000..19999} \<or> app \<in> {90000..99999}" by blast
  moreover have "sint u mod 100000 = app" using app unfolding u by auto
  ultimately show "isUserAppUID u" unfolding isUserAppUID_iff by simp
qed

text \<open>
  C37: the numbers Android gives out. Of every user, of all numbers with a name only that of
  the first app counts as a user app, and of all ranges exactly those of apps and of isolated
  processes: no system service, no SDK sandbox process and no group of cached data is touched.
\<close>

theorem android_numbers_classified:
  assumes "0 \<le> user" and "user * AID_USER_OFFSET + a < 2 ^ 31"
    and "(name, a) \<in> set android_ids \<or> (\<exists>lo hi. (name, lo, hi) \<in> set android_ranges \<and> lo \<le> a \<and> a \<le> hi)"
  shows "isUserAppUID (word_of_int (user * AID_USER_OFFSET + a)) \<longleftrightarrow> name \<in> {''AID_APP'', ''AID_ISOLATED''}"
proof -
  have "0 \<le> a \<and> (app_number (a mod AID_USER_OFFSET) \<longleftrightarrow> name \<in> {''AID_APP'', ''AID_ISOLATED''})"
    using assms(3)
  proof
    assume "(name, a) \<in> set android_ids"
    then show ?thesis using android_ids_apps by (fastforce simp: list_all_iff)
  next
    assume "\<exists>lo hi. (name, lo, hi) \<in> set android_ranges \<and> lo \<le> a \<and> a \<le> hi"
    then show ?thesis using android_ranges_apps by (fastforce simp: mod_pos_pos_trivial)
  qed
  then show ?thesis using isUserAppUID_of_user [OF assms(1) _ assms(2)] by simp
qed

theorem android_numbers_classified_witness:
  "\<not> isUserAppUID (word_of_int (10 * AID_USER_OFFSET + 20001)) \<and> isUserAppUID (word_of_int (10 * AID_USER_OFFSET + 90123))"
proof -
  have "(''AID_SDK_SANDBOX_PROCESS'', 20000, 29999) \<in> set android_ranges"
    "(''AID_ISOLATED'', 90000, 99999) \<in> set android_ranges"
    by (simp_all add: android_ranges_def AID_defs AID_SDK_SANDBOX_PROCESS_START_def AID_SDK_SANDBOX_PROCESS_END_def)
  then have "\<exists>lo hi. (''AID_SDK_SANDBOX_PROCESS'', lo, hi) \<in> set android_ranges \<and> lo \<le> 20001 \<and> 20001 \<le> hi"
    "\<exists>lo hi. (''AID_ISOLATED'', lo, hi) \<in> set android_ranges \<and> lo \<le> 90123 \<and> 90123 \<le> hi"
    by force+
  then show ?thesis
    using android_numbers_classified [of 10 20001 "''AID_SDK_SANDBOX_PROCESS''"]
      android_numbers_classified [of 10 90123 "''AID_ISOLATED''"]
    by (simp add: AID_USER_OFFSET_def)
qed

text \<open>
  C38: the superblock. The answer is \<open>b\<close> exactly when the type is one of the three, the
  source can be opened, the file reaches past the field, the magic number is there, and the
  16-bit little-endian field holds the number that stands for \<open>b\<close>.
\<close>

theorem getExtErrorsBehavior_spec:
  "fst (run_state (getExtErrorsBehavior E e) s) = Some b \<longleftrightarrow>
     filesystem_type e \<in> {''ext2'', ''ext3'', ''ext4''}
     \<and> (\<exists>bytes. env_file E (history s) (mount_source e) = Some bytes
        \<and> 1086 \<le> length bytes
        \<and> (of_char (bytes ! 1080) :: nat) = 0x53 \<and> (of_char (bytes ! 1081) :: nat) = 0xEF
        \<and> (of_char (bytes ! 1084) :: nat, b) \<in> {(1, ''continue''), (2, ''remount-ro''), (3, ''panic'')}
        \<and> (of_char (bytes ! 1085) :: nat) = 0)"
  by (auto simp: getExtErrorsBehavior_result superblock_errors_Some bind_eq_Some_conv)

text \<open>
  Hooking by library name. The first mapping whose path ends in a slash and the name
  decides: its device and inode are registered, once; without one nothing is registered and
  the answer is false.
\<close>

theorem hookPLTByName_first:
  assumes "tbl_pltHookRegister api \<noteq> None"
  shows "fst (run_state (hookPLTByName E api lib symbol hook orig) s) =
      (\<exists>m \<in> set (fst (run_state (parseSelfMaps E True) s)). ends_with (pathname m) (''/'' @ lib))
    \<and> history (snd (run_state (hookPLTByName E api lib symbol hook orig) s)) =
      history (snd (run_state (parseSelfMaps E True) s)) @
      (case filter (\<lambda>m. ends_with (pathname m) (''/'' @ lib)) (fst (run_state (parseSelfMaps E True) s)) of
         [] \<Rightarrow> []
       | m # _ \<Rightarrow> [Ev_pltHookRegister (map_device m) (inode m) symbol hook orig])"
proof -
  obtain maps t where maps: "run_state (parseSelfMaps E True) s = (maps, t)" by fastforce
  obtain p where p: "''/'' @ lib = p" by simp
  let ?P = "\<lambda>m. ends_with (pathname m) p"
  have find: "find ?P maps = (case filter ?P maps of [] \<Rightarrow> None | m # _ \<Rightarrow> Some m)"
    by (induction maps) simp_all
  have ex: "(\<exists>m \<in> set maps. ?P m) \<longleftrightarrow> filter ?P maps \<noteq> []"
    by (simp add: filter_empty_conv)
  have "run_state (hookPLTByName E api lib symbol hook orig) s = run_state
      (case find ?P maps of
         None \<Rightarrow> State_Monad.return False
       | Some m \<Rightarrow> do {
           Api_pltHookRegister api (map_device m) (inode m) symbol hook orig;
           State_Monad.return True }) t"
    using register_first_map_find [of api lib, unfolded p] by (simp add: hookPLTByName_def maps)
  then show ?thesis
    using assms unfolding p maps fst_conv snd_conv ex find
    by (auto simp: Api_pltHookRegister_def split: list.split)
qed

definition runtime_map :: "u64 map_entry" where
  "runtime_map = \<lparr>address_start = 4096, address_end = 8192, offset = 0, perms = ''r-xp'',
     pathname = ''/system/lib64/libandroid_runtime.so'', map_device = 1880, inode = 1022\<rparr>"

theorem hookPLTByName_first_witness:
  "history (snd (run_state (hookPLTByName calm_env (calm_api 0) ''libandroid_runtime.so'' ''unshare''
      New_unshare (Some Slot_unshare))
      (fresh_process\<lparr>maps_cache := [runtime_map\<lparr>pathname := ''/x/mylibandroid_runtime.so''\<rparr>, runtime_map]\<rparr>))) =
     [Ev_pltHookRegister 1880 1022 ''unshare'' New_unshare (Some Slot_unshare)]"
proof -
  have "tbl_pltHookRegister (calm_api 0) \<noteq> None" by (simp add: calm_api_def)
  note first = hookPLTByName_first [OF this]
  show ?thesis
    unfolding first [THEN conjunct2] by (simp add: parseSelfMaps_def runtime_map_def suffix_to_prefix)
qed

text \<open>
  Entering a namespace. Whatever the kernel answers, the descriptor of the namespace file
  is closed again when it was opened, and the answer is true exactly when \<open>setns\<close> succeeded
  on it.
\<close>

theorem switchMountNS_closes:
  "run_state (switchMountNS E pid) s =
     (let path = ''/proc/'' @ to_string pid @ ''/ns/mnt'';
          f = env_open E (history s) path;
          opened = history s @ [Ev_open path f];
          ok = env_setns E opened f in
      if sint (fd_num f) < 0 then (False, s\<lparr>history := opened\<rparr>)
      else (ok = 0, s\<lparr>history := opened @ [Ev_setns f ok, Ev_close f]\<rparr>))"
  by (simp add: switchMountNS_def run_simps Let_def)

end
