(* ===== verification/Fd_Reopener.thy ===== *)
theory Fd_Reopener
  imports Utils "HOL-Library.FSet"
begin

text \<open>
  \<open>fd_reopener.cpp\<close>: the scoped object that collects the regular files among the open
  descriptors when it is built and reopens them when it goes out of scope. \<open>GetOpenFds\<close>,
  \<open>CreateFromFd\<close> and \<open>ReopenOrDetach\<close> belong to the fd utilities and are calls.
\<close>

section \<open>Constructor and destructor\<close>

definition regular_file :: "fd_info \<Rightarrow> bool" where
  "regular_file i \<longleftrightarrow> \<not> fdi_is_sock i \<and> \<not> starts_with (fdi_file_path i) ''/memfd:''"

primrec collect_fds :: "env \<Rightarrow> fd list \<Rightarrow> (proc, fd_info list) state" where
  "collect_fds E [] = State_Monad.return []"
| "collect_fds E (f # fds) = do {
     pFDI \<leftarrow> call (\<lambda>h. env_fd_info E h f) (\<lambda>r. Ev_CreateFromFd f (r \<noteq> None));
     fdi_vector \<leftarrow> collect_fds E fds;
     State_Monad.return (case pFDI of
         None \<Rightarrow> fdi_vector
       | Some i \<Rightarrow> if regular_file i then i # fdi_vector else fdi_vector) }"

definition ScopedRegularReopener :: "env \<Rightarrow> (proc, fd_info list) state" where
  "ScopedRegularReopener E = do {
     pFdSet \<leftarrow> call (env_open_fds E) (\<lambda>r. Ev_GetOpenFds (r \<noteq> None));
     case pFdSet of
       None \<Rightarrow> State_Monad.return []
     | Some fds \<Rightarrow> collect_fds E (sorted_list_of_fset fds) }"

definition ScopedRegularReopener_end :: "fd_info list \<Rightarrow> (proc, unit) state" where
  "ScopedRegularReopener_end fdi_vector =
     for_each fdi_vector (\<lambda>i. emit (Ev_ReopenOrDetach (fdi_fd i) (fdi_file_path i)))"

section \<open>What is collected and reopened\<close>

lemma collect_fds_regular:
  "list_all regular_file (fst (run_state (collect_fds E fds) s))"
  by (induction fds arbitrary: s) (auto simp: case_prod_beta split: option.split)

lemma collect_fds_events:
  "\<exists>oks. length oks = length fds
     \<and> snd (run_state (collect_fds E fds) s) =
         s\<lparr>history := history s @ map (\<lambda>(f, ok). Ev_CreateFromFd f ok) (zip fds oks)\<rparr>"
proof (induction fds arbitrary: s)
  case Nil
  then show ?case by simp
next
  case (Cons f fds)
  let ?ok = "env_fd_info E (history s) f \<noteq> None"
  let ?s = "s\<lparr>history := history s @ [Ev_CreateFromFd f ?ok]\<rparr>"
  obtain oks where "length oks = length fds" and "snd (run_state (collect_fds E fds) ?s) =
      ?s\<lparr>history := history ?s @ map (\<lambda>(f, ok). Ev_CreateFromFd f ok) (zip fds oks)\<rparr>"
    using Cons.IH by blast
  then show ?case
    by (intro exI [of _ "?ok # oks"]) (simp add: case_prod_beta)
qed

text \<open>
  When what is known of a descriptor does not depend on the history, the collected vector
  is the regular files among the descriptors, in ascending order.
\<close>

lemma collect_fds_stable:
  assumes "\<And>h f. env_fd_info E h f = info f"
  shows "fst (run_state (collect_fds E fds) s) = filter regular_file (List.map_filter info fds)"
  using assms
  by (induction fds arbitrary: s)
    (auto simp: case_prod_beta map_filter_simps split: option.split)

lemma run_reopener_end:
  "run_state (ScopedRegularReopener_end is) s =
     ((), s\<lparr>history := history s @ map (\<lambda>i. Ev_ReopenOrDetach (fdi_fd i) (fdi_file_path i)) is\<rparr>)"
  by (induction "is" arbitrary: s) (simp_all add: ScopedRegularReopener_end_def)

lemma emits_reopener [emits_intros]:
  assumes "\<And>ok. P (Ev_GetOpenFds ok)" and "\<And>f ok. P (Ev_CreateFromFd f ok)"
  shows "emits P (ScopedRegularReopener E)"
proof -
  have "emits P (collect_fds E fds)" for fds
    by (induction fds) (auto intro!: emits_intros assms)
  then show ?thesis
    using assms by (auto simp: ScopedRegularReopener_def intro!: emits_intros)
qed

lemma emits_reopener_end [emits_intros]:
  "(\<And>f p. P (Ev_ReopenOrDetach f p)) \<Longrightarrow> emits P (ScopedRegularReopener_end is)"
  by (auto simp: ScopedRegularReopener_end_def intro!: emits_intros)

lemma run_collect_fds:
  assumes "\<And>h f. env_fd_info E h f = info f"
  shows "run_state (collect_fds E fds) s =
     (filter regular_file (List.map_filter info fds),
      s\<lparr>history := history s @ map (\<lambda>f. Ev_CreateFromFd f (info f \<noteq> None)) fds\<rparr>)"
  using assms
  by (induction fds arbitrary: s) (auto simp: map_filter_simps split: option.split)

lemma no_open_fds:
  assumes "env_open_fds E (history s) = Some {||}"
  shows "run_state (ScopedRegularReopener E) s = ([], s\<lparr>history := history s @ [Ev_GetOpenFds True]\<rparr>)"
proof -
  have "sorted_list_of_fset ({||} :: fd fset) = []" by code_simp
  with assms show ?thesis by (simp add: ScopedRegularReopener_def)
qed

section \<open>Properties\<close>

text \<open>
  C34: the life of the scoped object. When the answers about a descriptor do not change, the
  constructor asks once about every open descriptor, in ascending order, and the destructor
  reopens exactly the ones that are neither sockets nor memfds, in the same order.
\<close>

theorem reopener_scope:
  assumes "\<And>h. env_open_fds E h = Some fds" and "\<And>h f. env_fd_info E h f = info f"
  shows "history (snd (run_state (do { srr \<leftarrow> ScopedRegularReopener E; ScopedRegularReopener_end srr }) s)) =
     history s @ Ev_GetOpenFds True
     # map (\<lambda>f. Ev_CreateFromFd f (info f \<noteq> None)) (sorted_list_of_fset fds)
     @ map (\<lambda>i. Ev_ReopenOrDetach (fdi_fd i) (fdi_file_path i))
         (filter (\<lambda>i. \<not> fdi_is_sock i \<and> \<not> starts_with (fdi_file_path i) ''/memfd:'')
           (List.map_filter info (sorted_list_of_fset fds)))"
  using assms
  by (simp add: ScopedRegularReopener_def run_collect_fds run_reopener_end regular_file_def [abs_def])

definition three_fds :: "fd \<Rightarrow> fd_info option" where
  "three_fds f =
     (if f = Fd 3 then Some \<lparr>fdi_fd = Fd 3, fdi_is_sock = False, fdi_file_path = ''/system/framework/a.jar''\<rparr>
      else if f = Fd 5 then Some \<lparr>fdi_fd = Fd 5, fdi_is_sock = True, fdi_file_path = ''socket''\<rparr>
      else None)"

definition fds_env :: env where
  "fds_env = calm_env\<lparr>env_open_fds := (\<lambda>h. Some {|Fd 5, Fd 3|}), env_fd_info := (\<lambda>h. three_fds)\<rparr>"

theorem reopener_scope_witness:
  "history (snd (run_state (do { srr \<leftarrow> ScopedRegularReopener fds_env; ScopedRegularReopener_end srr }) fresh_process)) =
     [Ev_GetOpenFds True, Ev_CreateFromFd (Fd 3) True, Ev_CreateFromFd (Fd 5) True,
      Ev_ReopenOrDetach (Fd 3) ''/system/framework/a.jar'']"
proof -
  have env: "env_open_fds fds_env h = Some {|Fd 5, Fd 3|}" "env_fd_info fds_env h f = three_fds f" for h f
    by (simp_all add: fds_env_def)
  have "sorted_list_of_fset {|Fd 5, Fd 3|} = [Fd 3, Fd 5]" by code_simp
  then show ?thesis
    by (subst reopener_scope [OF env]) (simp_all add: three_fds_def map_filter_simps)
qed

end
