(* ===== verification/Modules.thy ===== *)
theory Modules
  imports Utils
begin

text \<open>
  \<open>modules.cpp\<close>: which mounts give root away and their removal, the remount of \<open>/data\<close> with
  the error behaviour of its superblock, the reset of the flag in libnativebridge's \<open>.bss\<close>,
  and the reset of properties that were modified.
\<close>

section \<open>Which mounts to remove\<close>

text \<open>\<open>mountdir_list\<close> is a \<open>std::set\<close>: it is iterated in lexicographic order.\<close>

definition mountdir_list :: "string list" where
  "mountdir_list = [''/data/adb'', ''/debug_ramdisk'']"

definition fsname_list :: "string set" where
  "fsname_list = {''KSU'', ''APatch'', ''magisk'', ''worker''}"

definition option_starts_with :: "options \<Rightarrow> string \<Rightarrow> string \<Rightarrow> bool" where
  "option_starts_with opts key dir =
     (case opts key of None \<Rightarrow> False | Some v \<Rightarrow> starts_with v dir)"

primrec touches_mountdir :: "mountinfo_entry \<Rightarrow> string \<Rightarrow> string list \<Rightarrow> bool" where
  "touches_mountdir mount true_root [] = False"
| "touches_mountdir mount true_root (mountdir # dirs) =
     (if starts_with true_root mountdir \<or> starts_with (mount_point mount) mountdir then True
      else if filesystem_type mount = ''overlay'' then
        (let options = super_options mount in
         if option_starts_with options ''lowerdir'' mountdir then True
         else if option_starts_with options ''upperdir'' mountdir then True
         else if option_starts_with options ''workdir'' mountdir then True
         else touches_mountdir mount true_root dirs)
      else touches_mountdir mount true_root dirs)"

definition shouldUnmount :: "mountinfo_entry \<Rightarrow> root_resolver \<Rightarrow> bool" where
  "shouldUnmount mount root_resolver =
     (let true_root = resolveRootOf root_resolver mount;
          type = filesystem_type mount in
      if touches_mountdir mount true_root mountdir_list then True
      else if (type = ''overlay'' \<or> type = ''tmpfs'') \<and> mount_source mount \<in> fsname_list then True
      else False)"

section \<open>Removing them\<close>

definition MNT_DETACH :: c_int where "MNT_DETACH = 2"

definition doUnmount :: "env \<Rightarrow> (proc, unit) state" where
  "doUnmount E = do {
     mount_infos \<leftarrow> parseSelfMountinfo E False;
     let root_resolver = mountinfo_root_resolver mount_infos;
     for_each (rev mount_infos) (\<lambda>it.
       if shouldUnmount it root_resolver then do {
         ret \<leftarrow> sys_umount2 E (mount_point it) MNT_DETACH;
         State_Monad.return () }
       else State_Monad.return ()) }"

section \<open>Remounting /data\<close>

definition MS_REMOUNT :: u64 where "MS_REMOUNT = 32"

text \<open>The flag values are those of the kernel's \<open>MS_\<close> constants.\<close>

definition mount_flags_procfs :: "(string \<times> c_int) list" where
  "mount_flags_procfs =
     [(''nosuid'', 2), (''nodev'', 4), (''noexec'', 8), (''noatime'', 1024),
      (''nodiratime'', 2048), (''relatime'', 2097152), (''nosymfollow'', 256)]"

definition remount_flags :: "(string \<times> c_int) list \<Rightarrow> options \<Rightarrow> u64" where
  "remount_flags flag_names mountOptions =
     fold (\<lambda>(name, flag) flags.
         if mountOptions name \<noteq> None then flags OR scast flag else flags)
       flag_names MS_REMOUNT"

definition remount_data :: "env \<Rightarrow> mountinfo_entry \<Rightarrow> (proc, unit) state" where
  "remount_data E mount =
     (case super_options mount ''errors'' of
        None \<Rightarrow> State_Monad.return ()
      | Some errors \<Rightarrow> do {
          sb_errors \<leftarrow> getExtErrorsBehavior E mount;
          case sb_errors of
            None \<Rightarrow> State_Monad.return ()
          | Some sb \<Rightarrow>
              if errors = sb then State_Monad.return ()
              else do {
                ret \<leftarrow> sys_mount E None ''/data'' None
                  (remount_flags mount_flags_procfs (mount_options mount))
                  (Some (''errors='' @ sb));
                State_Monad.return () } })"

primrec remount_first :: "env \<Rightarrow> mountinfo_entry list \<Rightarrow> (proc, unit) state" where
  "remount_first E [] = State_Monad.return ()"
| "remount_first E (mount # mounts) =
     (if mount_point mount = ''/data'' then remount_data E mount else remount_first E mounts)"

definition doRemount :: "env \<Rightarrow> (proc, unit) state" where
  "doRemount E = do { mounts \<leftarrow> parseSelfMountinfo E False; remount_first E mounts }"

section \<open>Resetting the flag of libnativebridge\<close>

definition find_nativebridge :: "u64 map_entry list \<Rightarrow> u64 map_entry option" where
  "find_nativebridge maps =
     find (\<lambda>m. ends_with (pathname m) ''/libnativebridge.so'' \<and> perms m = ''r--p'') maps"

definition c_memchr :: "(u64 \<Rightarrow> byte) \<Rightarrow> u64 \<Rightarrow> byte \<Rightarrow> u64 \<Rightarrow> u64 option" where
  "c_memchr m start c n =
     map_option (\<lambda>i. start + word_of_nat i)
       (find (\<lambda>i. m (start + word_of_nat i) = c) [0..<unat n])"

text \<open>The first \<open>.bss\<close> section: its address in memory and its size, zero when there is none.\<close>

definition find_bss :: "u64 \<Rightarrow> elf_section list \<Rightarrow> u64 \<times> u64" where
  "find_bss startAddress sections =
     (case find (\<lambda>sec. sec_name sec = ''.bss'') sections of
        None \<Rightarrow> (0, 0)
      | Some sec \<Rightarrow> (startAddress + sec_address sec, sec_size sec))"

definition reset_had_error :: "u64 \<Rightarrow> u64 \<Rightarrow> (proc, unit) state" where
  "reset_had_error bssAddress bssSize = modify (\<lambda>s.
     case c_memchr (memory s) bssAddress 1 bssSize of
       None \<Rightarrow> s
     | Some pHadError \<Rightarrow> s\<lparr>memory := (memory s)(pHadError := 0)\<rparr>)"

definition doHideZygisk :: "env \<Rightarrow> (proc, unit) state" where
  "doHideZygisk E = do {
     maps \<leftarrow> parseSelfMaps E True;
     let (filePath, startAddress) =
       (case find_nativebridge maps of None \<Rightarrow> ([], 0) | Some m \<Rightarrow> (pathname m, address_start m));
     if startAddress = 0 then State_Monad.return ()
     else do {
       loaded \<leftarrow> call (\<lambda>h. env_elf E h filePath) (\<lambda>r. Ev_elf_load filePath (r \<noteq> None));
       case loaded of
         None \<Rightarrow> State_Monad.return ()
       | Some sections \<Rightarrow>
           (let (bssAddress, bssSize) = find_bss startAddress sections in
            if bssAddress = 0 then State_Monad.return ()
            else reset_had_error bssAddress bssSize) } }"

section \<open>Resetting properties\<close>

definition PROP_VALUE_MAX :: nat where "PROP_VALUE_MAX = 92"

text \<open>\<open>strncmp(a, b, n) == 0\<close> on terminated strings.\<close>

definition strncmp_equal :: "string \<Rightarrow> string \<Rightarrow> nat \<Rightarrow> bool" where
  "strncmp_equal a b n \<longleftrightarrow> take n (takeWhile (\<lambda>c. c \<noteq> NUL) a @ [NUL]) =
     take n (takeWhile (\<lambda>c. c \<noteq> NUL) b @ [NUL])"

definition c_strnlen :: "char list \<Rightarrow> nat \<Rightarrow> nat" where
  "c_strnlen s n = length (takeWhile (\<lambda>c. c \<noteq> NUL) (take n s))"

definition shouldResetProperty :: "prop_info \<Rightarrow> bool" where
  "shouldResetProperty pi =
     (if \<not> strncmp_equal (prop_name pi) ''ro.'' 3 \<or> prop_is_long pi then False
      else if prop_serial pi AND 16777215 \<noteq> 0 then True
      else let len = c_strnlen (prop_value pi) PROP_VALUE_MAX in
        list_ex (\<lambda>i. prop_value pi ! i \<noteq> NUL) [len..<PROP_VALUE_MAX])"

text \<open>
  The value copied for an update. The buffer's bytes are indeterminate before the copy
  (\<open>junk\<close>); \<open>None\<close> would be an access outside the buffer or the value.
\<close>

definition copied_value :: "char list \<Rightarrow> char list \<Rightarrow> string option" where
  "copied_value junk val =
     map_option (\<lambda>(buffer, len). take len buffer) (safeStringCopy junk val PROP_VALUE_MAX)"

definition reset_property :: "prop_info \<Rightarrow> (proc, unit) state" where
  "reset_property pi =
     (if shouldResetProperty pi then
        (case copied_value (replicate PROP_VALUE_MAX NUL) (prop_value pi) of
           None \<Rightarrow> State_Monad.return ()
         | Some v \<Rightarrow> do {
             emit (Ev_prop_update (prop_name pi) v);
             modify (resetCount_update (\<lambda>n. n + 1)) })
      else State_Monad.return ())"

definition doMrProp :: "env \<Rightarrow> (proc, unit) state" where
  "doMrProp E = do {
     isInitialized \<leftarrow> gets prop_initialized;
     ok \<leftarrow> (if \<not> isInitialized then do {
             ret \<leftarrow> call (env_prop_init E) Ev_prop_init;
             if ret = - 1 then State_Monad.return False
             else do {
               modify (prop_initialized_update (\<lambda>_. True));
               State_Monad.return True } }
           else State_Monad.return True);
     if \<not> ok then State_Monad.return ()
     else do {
       props \<leftarrow> call (env_props E) (\<lambda>_. Ev_prop_foreach);
       for_each props reset_property } }"

section \<open>Which mounts are removed\<close>

lemma option_starts_with_iff:
  "option_starts_with opts key dir \<longleftrightarrow> (\<exists>v. opts key = Some v \<and> starts_with v dir)"
  by (simp add: option_starts_with_def split: option.split)

lemma touches_mountdir_iff:
  "touches_mountdir mount true_root dirs \<longleftrightarrow>
     (\<exists>dir \<in> set dirs. starts_with true_root dir \<or> starts_with (mount_point mount) dir
        \<or> filesystem_type mount = ''overlay''
          \<and> (\<exists>key \<in> {''lowerdir'', ''upperdir'', ''workdir''}. \<exists>v.
               super_options mount key = Some v \<and> starts_with v dir))"
  by (induction dirs) (auto simp: option_starts_with_iff Let_def)

lemma shouldUnmount_iff:
  "shouldUnmount mount rr \<longleftrightarrow>
     (\<exists>dir \<in> {''/data/adb'', ''/debug_ramdisk''}.
        starts_with (resolveRootOf rr mount) dir \<or> starts_with (mount_point mount) dir
        \<or> filesystem_type mount = ''overlay''
          \<and> (\<exists>key \<in> {''lowerdir'', ''upperdir'', ''workdir''}. \<exists>v.
               super_options mount key = Some v \<and> starts_with v dir))
     \<or> filesystem_type mount \<in> {''overlay'', ''tmpfs''}
       \<and> mount_source mount \<in> {''KSU'', ''APatch'', ''magisk'', ''worker''}"
  by (auto simp: shouldUnmount_def touches_mountdir_iff mountdir_list_def fsname_list_def Let_def)

section \<open>The calls of the removal\<close>

lemma for_each_filter:
  "for_each xs (\<lambda>x. if P x then f x else State_Monad.return ()) = for_each (filter P xs) f"
  by (induction xs) simp_all

abbreviation umount_event :: "mountinfo_entry \<Rightarrow> c_int \<Rightarrow> event" where
  "umount_event m r \<equiv> Ev_umount2 (mount_point m) MNT_DETACH r"

lemma umount_loop:
  "\<exists>rs. length rs = length ms
     \<and> run_state (for_each ms (\<lambda>it. do {
           ret \<leftarrow> sys_umount2 E (mount_point it) MNT_DETACH; State_Monad.return () })) s =
         ((), s\<lparr>history := history s @ map2 umount_event ms rs\<rparr>)"
proof (induction ms arbitrary: s)
  case Nil
  then show ?case by simp
next
  case (Cons m ms)
  let ?r = "env_umount2 E (history s) (mount_point m) MNT_DETACH"
  obtain rs where "length rs = length ms"
    and "run_state (for_each ms (\<lambda>it. do {
           ret \<leftarrow> sys_umount2 E (mount_point it) MNT_DETACH; State_Monad.return () }))
           (s\<lparr>history := history s @ [umount_event m ?r]\<rparr>) =
         ((), s\<lparr>history := (history s @ [umount_event m ?r]) @ map2 umount_event ms rs\<rparr>)"
    using Cons.IH [of "s\<lparr>history := history s @ [umount_event m ?r]\<rparr>"] by auto
  then show ?case
    by (intro exI [of _ "?r # rs"]) (simp add: run_simps)
qed

definition selected :: "mountinfo_entry list \<Rightarrow> mountinfo_entry list" where
  "selected infos =
     filter (\<lambda>m. shouldUnmount m (mountinfo_root_resolver infos)) (rev infos)"

abbreviation opened_mountinfo :: "env \<Rightarrow> history \<Rightarrow> event" where
  "opened_mountinfo E h \<equiv> Ev_open_file ''/proc/self/mountinfo''
     (env_file E h ''/proc/self/mountinfo'' \<noteq> None)"

lemma doUnmount_run:
  obtains rs where "length rs = length (selected (mountinfo_contents E (history s)))"
    and "run_state (doUnmount E) s =
      ((), s\<lparr>history := history s @ opened_mountinfo E (history s)
               # map2 umount_event (selected (mountinfo_contents E (history s))) rs,
             mountinfo_cache := mountinfo_contents E (history s)\<rparr>)"
proof -
  let ?infos = "mountinfo_contents E (history s)"
  let ?s = "s\<lparr>history := history s @ [opened_mountinfo E (history s)], mountinfo_cache := ?infos\<rparr>"
  obtain rs where "length rs = length (selected ?infos)"
    and "run_state (for_each (selected ?infos) (\<lambda>it. do {
           ret \<leftarrow> sys_umount2 E (mount_point it) MNT_DETACH; State_Monad.return () })) ?s =
         ((), ?s\<lparr>history := history ?s @ map2 umount_event (selected ?infos) rs\<rparr>)"
    using umount_loop [of "selected ?infos" E ?s] by blast
  then show ?thesis
    by (intro that [of rs])
      (simp_all add: doUnmount_def parseSelfMountinfo_fresh for_each_filter selected_def Let_def)
qed

section \<open>The remount flags\<close>

lemma remount_flags_bit:
  "bit (remount_flags names opts) n \<longleftrightarrow>
     bit MS_REMOUNT n
     \<or> (\<exists>(name, flag) \<in> set names. opts name \<noteq> None \<and> bit (scast flag :: u64) n)"
proof -
  have "bit (fold (\<lambda>(name, flag) flags.
      if opts name \<noteq> None then flags OR scast flag else flags) names w) n \<longleftrightarrow>
      bit w n \<or> (\<exists>(name, flag) \<in> set names. opts name \<noteq> None \<and> bit (scast flag :: u64) n)"
    for w :: u64
    by (induction names arbitrary: w) (auto simp: bit_or_iff split: if_splits)
  then show ?thesis by (simp add: remount_flags_def)
qed

lemma remount_flags_remounts: "bit (remount_flags names opts) 5"
  by (simp add: remount_flags_bit MS_REMOUNT_def)

lemma remount_flags_order:
  "set names = set names' \<Longrightarrow> remount_flags names opts = remount_flags names' opts"
  by (rule bit_eqI) (simp add: remount_flags_bit)

lemma remount_flags_value:
  "remount_flags mount_flags_procfs opts =
     32 OR (if opts ''nosuid'' \<noteq> None then 2 else 0) OR (if opts ''nodev'' \<noteq> None then 4 else 0)
        OR (if opts ''noexec'' \<noteq> None then 8 else 0) OR (if opts ''noatime'' \<noteq> None then 1024 else 0)
        OR (if opts ''nodiratime'' \<noteq> None then 2048 else 0)
        OR (if opts ''relatime'' \<noteq> None then 2097152 else 0)
        OR (if opts ''nosymfollow'' \<noteq> None then 256 else 0)"
  by (simp add: remount_flags_def mount_flags_procfs_def MS_REMOUNT_def)

section \<open>The removal against a mount table\<close>

text \<open>
  What \<open>umount2(2)\<close> documents of a successful call on a path: the topmost mount there, the
  last one of the table with that mount point, is gone. The table is the environment's: a
  function of the history. \<open>in_sync\<close> says that the file shows the table.
\<close>

definition detaches_topmost :: "env \<Rightarrow> (history \<Rightarrow> mountinfo_entry list) \<Rightarrow> bool" where
  "detaches_topmost E table \<longleftrightarrow>
     (\<forall>h xs e ys. table h = xs @ e # ys
        \<and> (\<forall>y \<in> set ys. mount_point y \<noteq> mount_point e)
        \<and> env_umount2 E h (mount_point e) MNT_DETACH = 0
        \<longrightarrow> table (h @ [umount_event e 0]) = xs @ ys)"

definition in_sync :: "env \<Rightarrow> (history \<Rightarrow> mountinfo_entry list) \<Rightarrow> history \<Rightarrow> bool" where
  "in_sync E table h \<longleftrightarrow>
     mountinfo_contents E h = table h \<and> table (h @ [opened_mountinfo E h]) = table h"

text \<open>No mount that stays lies on top of a mount that goes.\<close>

fun uncovered :: "(mountinfo_entry \<Rightarrow> bool) \<Rightarrow> mountinfo_entry list \<Rightarrow> bool" where
  "uncovered P [] = True"
| "uncovered P (m # ms) =
     ((P m \<longrightarrow> (\<forall>y \<in> set ms. \<not> P y \<longrightarrow> mount_point y \<noteq> mount_point m)) \<and> uncovered P ms)"

lemma uncovered_snoc:
  "uncovered P (ms @ [m]) \<longleftrightarrow>
     uncovered P ms \<and> (\<not> P m \<longrightarrow> (\<forall>x \<in> set ms. P x \<longrightarrow> mount_point m \<noteq> mount_point x))"
  by (induction ms) auto

lemma uncovered_mid:
  "uncovered P (us @ e # ks) \<Longrightarrow> P e \<Longrightarrow> \<forall>y \<in> set ks. \<not> P y \<longrightarrow> mount_point y \<noteq> mount_point e"
  by (induction us) auto

lemma unmount_loop_table:
  assumes "detaches_topmost E table" and "\<And>h p. env_umount2 E h p MNT_DETACH = 0"
    and "uncovered P (us @ ks)" and "table (history s) = us @ filter (\<lambda>m. \<not> P m) ks"
  shows "table (history (snd (run_state (for_each (filter P (rev us)) (\<lambda>it. do {
      ret \<leftarrow> sys_umount2 E (mount_point it) MNT_DETACH; State_Monad.return () })) s))) =
      filter (\<lambda>m. \<not> P m) (us @ ks)"
  using assms(3,4)
proof (induction us arbitrary: ks s rule: rev_induct)
  case Nil
  then show ?case by simp
next
  case (snoc e us)
  show ?case
  proof (cases "P e")
    case True
    let ?s = "s\<lparr>history := history s @ [umount_event e 0]\<rparr>"
    have "\<forall>y \<in> set (filter (\<lambda>m. \<not> P m) ks). mount_point y \<noteq> mount_point e"
      using snoc.prems(1) True uncovered_mid [of P us e ks] by simp
    then have "table (history ?s) = us @ filter (\<lambda>m. \<not> P m) (e # ks)"
      using assms(1,2) snoc.prems(2) True unfolding detaches_topmost_def by simp
    then show ?thesis
      using snoc.IH [of "e # ks" ?s] snoc.prems(1) True assms(2) by (simp add: run_simps)
  next
    case False
    then show ?thesis using snoc.IH [of "e # ks" s] snoc.prems by simp
  qed
qed

lemma doUnmount_table:
  assumes "detaches_topmost E table" and "\<And>h p. env_umount2 E h p MNT_DETACH = 0"
    and "in_sync E table (history s)" and "table (history s) = infos"
    and "uncovered (\<lambda>m. shouldUnmount m (mountinfo_root_resolver infos)) infos"
  shows "table (history (snd (run_state (doUnmount E) s))) =
      filter (\<lambda>m. \<not> shouldUnmount m (mountinfo_root_resolver infos)) infos"
proof -
  let ?P = "\<lambda>m. shouldUnmount m (mountinfo_root_resolver infos)"
  let ?s = "s\<lparr>history := history s @ [opened_mountinfo E (history s)], mountinfo_cache := infos\<rparr>"
  have infos: "mountinfo_contents E (history s) = infos" and "table (history ?s) = infos"
    using assms(3,4) by (simp_all add: in_sync_def)
  then have "table (history (snd (run_state (for_each (filter ?P (rev infos)) (\<lambda>it. do {
      ret \<leftarrow> sys_umount2 E (mount_point it) MNT_DETACH; State_Monad.return () })) ?s))) =
      filter (\<lambda>m. \<not> ?P m) (infos @ [])"
    using assms(5) by (intro unmount_loop_table [OF assms(1,2)]) simp_all
  with infos show ?thesis
    by (simp add: doUnmount_def parseSelfMountinfo_fresh for_each_filter Let_def)
qed

section \<open>The decision to remount\<close>

fun mount_call :: "event \<Rightarrow> (string option \<times> string \<times> string option \<times> u64 \<times> string option) option" where
  "mount_call (Ev_mount src tgt ty flags opts r) = Some (src, tgt, ty, flags, opts)"
| "mount_call _ = None"

definition mount_calls :: "history \<Rightarrow>
    (string option \<times> string \<times> string option \<times> u64 \<times> string option) list" where
  "mount_calls h = List.map_filter mount_call h"

lemma mount_calls_append [simp]: "mount_calls (h @ h') = mount_calls h @ mount_calls h'"
  by (simp add: mount_calls_def List.map_filter_def)

lemma mount_calls_Cons:
  "mount_calls (e # h) = (case mount_call e of None \<Rightarrow> mount_calls h | Some c \<Rightarrow> c # mount_calls h)"
  by (simp add: mount_calls_def map_filter_simps split: option.split)

lemma mount_calls_Nil [simp]: "mount_calls [] = []"
  by (simp add: mount_calls_def map_filter_simps)

text \<open>The error behaviour the superblock of an entry holds, when it can be read at \<open>h\<close>.\<close>

definition superblock_of :: "env \<Rightarrow> history \<Rightarrow> mountinfo_entry \<Rightarrow> string option" where
  "superblock_of E h e =
     (if filesystem_type e \<in> {''ext2'', ''ext3'', ''ext4''}
      then Option.bind (env_file E h (mount_source e)) superblock_errors else None)"

definition remount_decision :: "env \<Rightarrow> history \<Rightarrow> mountinfo_entry list \<Rightarrow> (u64 \<times> string) option" where
  "remount_decision E h infos = do {
     e \<leftarrow> find (\<lambda>m. mount_point m = ''/data'') infos;
     errors \<leftarrow> super_options e ''errors'';
     sb \<leftarrow> superblock_of E h e;
     if errors = sb then None
     else Some (remount_flags mount_flags_procfs (mount_options e), sb) }"

lemma remount_first_find:
  "remount_first E ms =
     (case find (\<lambda>m. mount_point m = ''/data'') ms of
        None \<Rightarrow> State_Monad.return () | Some m \<Rightarrow> remount_data E m)"
  by (induction ms) simp_all

lemma remount_data_calls:
  "mount_calls (history (snd (run_state (remount_data E e) s))) =
     mount_calls (history s) @
     (case Option.bind (super_options e ''errors'') (\<lambda>errors.
             Option.bind (superblock_of E (history s) e) (\<lambda>sb.
               if errors = sb then None else Some sb)) of
        None \<Rightarrow> []
      | Some sb \<Rightarrow> [(None, ''/data'', None,
          remount_flags mount_flags_procfs (mount_options e), Some (''errors='' @ sb))])"
proof (cases "super_options e ''errors''")
  case None
  then show ?thesis by (simp add: remount_data_def)
next
  case (Some errors)
  obtain r t where r: "run_state (getExtErrorsBehavior E e) s = (r, t)" by fastforce
  have "r = superblock_of E (history s) e"
    using getExtErrorsBehavior_result [of E e s] r by (simp add: superblock_of_def)
  moreover have "mount_calls (history t) = mount_calls (history s)"
    using r by (auto simp: getExtErrorsBehavior_def run_simps Let_def mount_calls_Cons split: if_splits)
  ultimately show ?thesis
    using Some r
    by (auto simp: remount_data_def run_simps mount_calls_Cons split: option.split)
qed

lemma doRemount_calls:
  "mount_calls (history (snd (run_state (doRemount E) s))) =
     mount_calls (history s) @
     (case remount_decision E (history s @ [opened_mountinfo E (history s)])
             (mountinfo_contents E (history s)) of
        None \<Rightarrow> []
      | Some (flags, sb) \<Rightarrow> [(None, ''/data'', None, flags, Some (''errors='' @ sb))])"
  by (auto simp: doRemount_def parseSelfMountinfo_fresh remount_first_find remount_data_calls
      remount_decision_def mount_calls_Cons split: option.split Option.bind_split)

section \<open>The byte that is reset\<close>

lemma c_memchr_Some:
  assumes "c_memchr m start c n = Some p"
  obtains i where "i < unat n" and "p = start + word_of_nat i" and "m p = c"
    and "\<And>j. j < i \<Longrightarrow> m (start + word_of_nat j) \<noteq> c"
proof -
  obtain i where i: "find (\<lambda>i. m (start + word_of_nat i) = c) [0..<unat n] = Some i"
    and p: "p = start + word_of_nat i"
    using assms by (auto simp: c_memchr_def)
  then obtain k where "k < unat n" and "[0..<unat n] ! k = i"
    and "m (start + word_of_nat i) = c"
    and "\<forall>j < k. m (start + word_of_nat ([0..<unat n] ! j)) \<noteq> c"
    by (auto simp: find_Some_iff)
  then show ?thesis using p by (intro that [of k]) auto
qed

lemma c_memchr_None:
  "c_memchr m start c n = None \<longleftrightarrow> (\<forall>i < unat n. m (start + word_of_nat i) \<noteq> c)"
  by (auto simp: c_memchr_def find_None_iff)

text \<open>The \<open>.bss\<close> range the code computes, when it gets that far.\<close>

definition nativebridge_bss :: "env \<Rightarrow> history \<Rightarrow> u64 map_entry list \<Rightarrow> (u64 \<times> u64) option" where
  "nativebridge_bss E h maps = do {
     m \<leftarrow> find_nativebridge maps;
     if address_start m = 0 then None
     else do {
       sections \<leftarrow> env_elf E h (pathname m);
       let (a, n) = find_bss (address_start m) sections;
       if a = 0 then None else Some (a, n) } }"

lemma doHideZygisk_memory:
  assumes "run_state (parseSelfMaps E True) s = (maps, t)"
  shows "memory (snd (run_state (doHideZygisk E) s)) =
     (case Option.bind (nativebridge_bss E (history t) maps) (\<lambda>(a, n). c_memchr (memory s) a 1 n) of
        None \<Rightarrow> memory s | Some p \<Rightarrow> (memory s)(p := 0))"
proof -
  have mem: "memory t = memory s"
    by (rule keepsD [OF _ assms]) (rule keeps_parseSelfMaps; simp)
  show ?thesis
  proof (cases "find_nativebridge maps")
    case None
    with assms mem show ?thesis by (simp add: doHideZygisk_def nativebridge_bss_def)
  next
    case (Some m)
    with assms mem show ?thesis
      by (auto simp: doHideZygisk_def nativebridge_bss_def reset_had_error_def Let_def
          split: option.split prod.split)
  qed
qed

section \<open>Properties\<close>

lemma strncmp_ro: "strncmp_equal name ''ro.'' 3 \<longleftrightarrow> starts_with name ''ro.''"
proof (cases name)
  case (Cons a n1)
  then show ?thesis
  proof (cases n1)
    case C1: (Cons b n2)
    then show ?thesis using Cons by (cases n2) (simp_all add: strncmp_equal_def, blast)
  qed (simp add: strncmp_equal_def)
qed (simp add: strncmp_equal_def)

lemma shouldResetProperty_iff:
  assumes "length (prop_value pi) = PROP_VALUE_MAX"
  shows "shouldResetProperty pi \<longleftrightarrow>
     starts_with (prop_name pi) ''ro.'' \<and> \<not> prop_is_long pi
     \<and> (prop_serial pi AND 16777215 \<noteq> 0
        \<or> (\<exists>c \<in> set (dropWhile (\<lambda>c. c \<noteq> NUL) (prop_value pi)). c \<noteq> NUL))"
proof -
  let ?v = "prop_value pi" and ?P = "\<lambda>c. c \<noteq> NUL"
  have "drop k ?v = map (\<lambda>i. ?v ! i) [k..<length ?v]" for k
    by (rule nth_equalityI) auto
  then have "list_ex (\<lambda>i. ?v ! i \<noteq> NUL) [length (takeWhile ?P ?v)..<length ?v] \<longleftrightarrow>
      (\<exists>c \<in> set (drop (length (takeWhile ?P ?v)) ?v). c \<noteq> NUL)"
    by (simp add: list_ex_iff)
  then show ?thesis
    using assms
    by (auto simp: shouldResetProperty_def strncmp_ro c_strnlen_def Let_def dropWhile_eq_drop)
qed

lemma copied_value_text:
  assumes "length junk = PROP_VALUE_MAX" and "length v = PROP_VALUE_MAX"
  shows "copied_value junk v = Some (takeWhile (\<lambda>c. c \<noteq> NUL) (take (PROP_VALUE_MAX - 1) v))"
  using assms safeStringCopy_result [of PROP_VALUE_MAX junk v]
  by (simp add: copied_value_def PROP_VALUE_MAX_def)

definition prop_text :: "prop_info \<Rightarrow> string" where
  "prop_text pi = takeWhile (\<lambda>c. c \<noteq> NUL) (take (PROP_VALUE_MAX - 1) (prop_value pi))"

lemma reset_loop:
  assumes "\<forall>pi \<in> set props. length (prop_value pi) = PROP_VALUE_MAX"
  shows "run_state (for_each props reset_property) s =
     ((), s\<lparr>history := history s @
              map (\<lambda>pi. Ev_prop_update (prop_name pi) (prop_text pi))
                (filter shouldResetProperty props),
            resetCount := resetCount s + word_of_nat (length (filter shouldResetProperty props))\<rparr>)"
  using assms
proof (induction props arbitrary: s)
  case Nil
  then show ?case by simp
next
  case (Cons pi props)
  then show ?case
    by (simp add: reset_property_def copied_value_text prop_text_def)
qed

lemma doMrProp_run:
  assumes "\<And>h. \<forall>pi \<in> set (env_props E h). length (prop_value pi) = PROP_VALUE_MAX"
    and "prop_initialized s \<or> env_prop_init E (history s) \<noteq> - 1"
  defines "inits \<equiv> if prop_initialized s then [] else [Ev_prop_init (env_prop_init E (history s))]"
  defines "todo \<equiv> filter shouldResetProperty (env_props E (history s @ inits))"
  shows "run_state (doMrProp E) s =
     ((), s\<lparr>history := history s @ inits @ Ev_prop_foreach #
              map (\<lambda>pi. Ev_prop_update (prop_name pi) (prop_text pi)) todo,
            prop_initialized := True,
            resetCount := resetCount s + word_of_nat (length todo)\<rparr>)"
  using assms(1,2)
  by (auto simp: doMrProp_def inits_def todo_def reset_loop)

lemma doMrProp_fails:
  assumes "\<not> prop_initialized s" and "env_prop_init E (history s) = - 1"
  shows "run_state (doMrProp E) s = ((), s\<lparr>history := history s @ [Ev_prop_init (- 1)]\<rparr>)"
  using assms by (simp add: doMrProp_def)

section \<open>Effects of the modules\<close>

lemma emits_doUnmount [emits_intros]:
  assumes "\<And>ok. P (Ev_open_file ''/proc/self/mountinfo'' ok)"
    and "\<And>p r. P (Ev_umount2 p MNT_DETACH r)"
  shows "emits P (doUnmount E)"
  using assms by (auto simp: doUnmount_def sys_umount2_def Let_def intro!: emits_intros)

lemma emits_doRemount [emits_intros]:
  assumes "\<And>p ok. P (Ev_open_file p ok)"
    and "\<And>f opts r. bit f 5 \<Longrightarrow> P (Ev_mount None ''/data'' None f opts r)"
  shows "emits P (doRemount E)"
  using assms
  by (auto simp: doRemount_def remount_first_find remount_data_def getExtErrorsBehavior_def
      open_file_def sys_mount_def Let_def remount_flags_remounts intro!: emits_intros)

lemma emits_doHideZygisk [emits_intros]:
  assumes "\<And>ok. P (Ev_open_file ''/proc/self/maps'' ok)" and "\<And>p ok. P (Ev_elf_load p ok)"
  shows "emits P (doHideZygisk E)"
  using assms
  by (auto simp: doHideZygisk_def reset_had_error_def Let_def
      intro!: emits_intros split: option.split)

lemma emits_doMrProp [emits_intros]:
  assumes "\<And>r. P (Ev_prop_init r)" and "P Ev_prop_foreach" and "\<And>n v. P (Ev_prop_update n v)"
  shows "emits P (doMrProp E)"
  using assms by (auto simp: doMrProp_def reset_property_def intro!: emits_intros)

lemma keeps_doUnmount [keeps_intros]:
  assumes "\<And>s h. f (s\<lparr>history := h\<rparr>) = f s" and "\<And>s c. f (s\<lparr>mountinfo_cache := c\<rparr>) = f s"
  shows "keeps f (doUnmount E)"
  using assms by (auto simp: doUnmount_def sys_umount2_def Let_def intro!: keeps_intros)

lemma keeps_doHideZygisk [keeps_intros]:
  assumes "\<And>s h. f (s\<lparr>history := h\<rparr>) = f s" and "\<And>s c. f (s\<lparr>maps_cache := c\<rparr>) = f s"
    and "\<And>s m. f (s\<lparr>memory := m\<rparr>) = f s"
  shows "keeps f (doHideZygisk E)"
  using assms
  by (auto simp: doHideZygisk_def reset_had_error_def Let_def
      intro!: keeps_intros split: option.split)

section \<open>The unmount calls of a history\<close>

fun umount_call :: "event \<Rightarrow> (string \<times> c_int) option" where
  "umount_call (Ev_umount2 p flags r) = Some (p, flags)"
| "umount_call _ = None"

definition umounts :: "history \<Rightarrow> (string \<times> c_int) list" where
  "umounts h = List.map_filter umount_call h"

lemma umounts_append [simp]: "umounts (h @ h') = umounts h @ umounts h'"
  by (simp add: umounts_def List.map_filter_def)

lemma umounts_Nil [simp]: "umounts [] = []"
  by (simp add: umounts_def map_filter_simps)

lemma umounts_Cons:
  "umounts (e # h) = (case umount_call e of None \<Rightarrow> umounts h | Some c \<Rightarrow> c # umounts h)"
  by (simp add: umounts_def map_filter_simps split: option.split)

lemma umounts_none: "list_all (\<lambda>e. umount_call e = None) es \<Longrightarrow> umounts es = []"
  by (induction es) (simp_all add: umounts_Cons)

abbreviation no_umount :: "(proc, 'a) state \<Rightarrow> bool" where
  "no_umount \<equiv> emits (\<lambda>e. umount_call e = None)"

lemma no_umount_same:
  "no_umount m \<Longrightarrow> run_state m s = (a, t) \<Longrightarrow> umounts (history t) = umounts (history s)"
  by (erule (1) emitsD) (simp add: umounts_none)

lemma no_umount_run: "no_umount m \<Longrightarrow> umounts (history (snd (run_state m s))) = umounts (history s)"
  by (cases "run_state m s") (simp add: no_umount_same)

lemma umounts_events:
  "length rs = length ms \<Longrightarrow>
     umounts (map2 umount_event ms rs) = map (\<lambda>m. (mount_point m, MNT_DETACH)) ms"
  by (induction ms rs rule: list_induct2') (simp_all add: umounts_Cons)

lemma doUnmount_umounts:
  "umounts (history (snd (run_state (doUnmount E) s))) =
     umounts (history s)
     @ map (\<lambda>m. (mount_point m, MNT_DETACH)) (selected (mountinfo_contents E (history s)))"
  by (rule doUnmount_run [of E s]) (simp add: umounts_Cons umounts_events)

section \<open>Properties\<close>

text \<open>
  C1: the removal asks the kernel to detach exactly the mounts that \<open>shouldUnmount\<close> selects
  among the lines of \<open>/proc/self/mountinfo\<close> as it is at that moment, every one of them once,
  from the last line to the first, and goes on whatever each call returns.
\<close>

theorem doUnmount_detaches:
  "umounts (history (snd (run_state (doUnmount E) s))) =
     umounts (history s) @
     (let infos = mountinfo_contents E (history s) in
      map (\<lambda>m. (mount_point m, MNT_DETACH))
        (filter (\<lambda>m. shouldUnmount m (mountinfo_root_resolver infos)) (rev infos)))"
  by (simp add: doUnmount_umounts selected_def Let_def)

text \<open>
  C15: which mounts are selected. A mount counts when its root, prefixed with the place where
  the whole file system of its device is mounted last, or its mount point lies under one of
  the two directories, when it is an overlay one of whose three directory options does, or
  when it is an overlay or a tmpfs whose source is a known name.
\<close>

theorem shouldUnmount_criteria:
  "shouldUnmount mount (mountinfo_root_resolver infos) \<longleftrightarrow>
     (let true_root =
        (case find (\<lambda>r. root r = ''/'' \<and> device r = device mount) (rev infos) of
           None \<Rightarrow> root mount
         | Some r \<Rightarrow> if mount_point r = ''/'' then root mount else mount_point r @ root mount) in
      (\<exists>dir \<in> {''/data/adb'', ''/debug_ramdisk''}.
         starts_with true_root dir \<or> starts_with (mount_point mount) dir
         \<or> filesystem_type mount = ''overlay''
           \<and> (\<exists>key \<in> {''lowerdir'', ''upperdir'', ''workdir''}. \<exists>v.
                super_options mount key = Some v \<and> starts_with v dir))
      \<or> filesystem_type mount \<in> {''overlay'', ''tmpfs''}
        \<and> mount_source mount \<in> {''KSU'', ''APatch'', ''magisk'', ''worker''})"
proof -
  have "resolveRootOf (mountinfo_root_resolver infos) mount =
      (case find (\<lambda>r. root r = ''/'' \<and> device r = device mount) (rev infos) of
         None \<Rightarrow> root mount
       | Some r \<Rightarrow> if mount_point r = ''/'' then root mount else mount_point r @ root mount)"
    by (simp add: resolveRootOf_def mountinfo_root_resolver_last split: option.split)
  then show ?thesis by (simp only: shouldUnmount_iff Let_def)
qed


text \<open>A table that follows the history, for the witness.\<close>

primrec remove_first :: "('a \<Rightarrow> bool) \<Rightarrow> 'a list \<Rightarrow> 'a list" where
  "remove_first P [] = []"
| "remove_first P (x # xs) = (if P x then xs else x # remove_first P xs)"

fun table_step :: "mountinfo_entry list \<Rightarrow> event \<Rightarrow> mountinfo_entry list" where
  "table_step t (Ev_umount2 p flags r) =
     (if r = 0 then rev (remove_first (\<lambda>m. mount_point m = p) (rev t)) else t)"
| "table_step t _ = t"

lemma remove_first_split: "\<forall>y \<in> set ys. \<not> P y \<Longrightarrow> P x \<Longrightarrow> remove_first P (ys @ x # xs) = ys @ xs"
  by (induction ys) simp_all

lemma table_step_detaches: "detaches_topmost E (foldl table_step t)"
  by (simp add: detaches_topmost_def remove_first_split)

definition magisk_env :: env where
  "magisk_env = calm_env\<lparr>env_file := (\<lambda>h path.
     if path = ''/proc/self/mountinfo'' then Some (render_mountinfo sample_mounts) else None)\<rparr>"

definition magisk_table :: "mountinfo_entry list" where
  "magisk_table = map (mount_line_entry (env_makedev calm_env)) sample_mounts"

lemma magisk_contents: "mountinfo_contents magisk_env h = magisk_table"
  by (simp add: mountinfo_contents_def magisk_env_def magisk_table_def calm_env_def
      parse_render_mountinfo [OF sample_mounts_wf])

lemma magisk_umount2: "env_umount2 magisk_env h p fl = 0"
  by (simp add: magisk_env_def)

lemma magisk_selected:
  "filter (\<lambda>m. \<not> shouldUnmount m (mountinfo_root_resolver magisk_table)) magisk_table =
     [magisk_table ! 0, magisk_table ! 3]"
proof -
  have "map (\<lambda>m. shouldUnmount m (mountinfo_root_resolver magisk_table)) magisk_table =
      [False, True, True, False]"
    by code_simp
  then show ?thesis by (simp add: magisk_table_def sample_mounts_def)
qed

lemma magisk_selected_points: "map mount_point (selected magisk_table) = [''/system/etc'', ''/sbin'']"
  by code_simp

lemma magisk_uncovered:
  "uncovered (\<lambda>m. shouldUnmount m (mountinfo_root_resolver magisk_table)) magisk_table"
  by (simp add: magisk_table_def sample_mounts_def mount_line_entry_def make_entry_def)



text \<open>
  The flags of the remount. Whatever order the unordered map is iterated in, the value
  is \<open>MS_REMOUNT\<close> with the bit of each of the seven options that are set. The table has no
  entry for \<open>ro\<close>: the bit \<open>MS_RDONLY\<close> is never set.
\<close>

theorem remount_flags_any_order:
  assumes "set names = set mount_flags_procfs"
  shows "remount_flags names opts =
     32 OR (if opts ''nosuid'' \<noteq> None then 2 else 0) OR (if opts ''nodev'' \<noteq> None then 4 else 0)
        OR (if opts ''noexec'' \<noteq> None then 8 else 0) OR (if opts ''noatime'' \<noteq> None then 1024 else 0)
        OR (if opts ''nodiratime'' \<noteq> None then 2048 else 0)
        OR (if opts ''relatime'' \<noteq> None then 2097152 else 0)
        OR (if opts ''nosymfollow'' \<noteq> None then 256 else 0)
     \<and> \<not> bit (remount_flags names opts) 0"
proof -
  have "remount_flags names opts = remount_flags mount_flags_procfs opts"
    using assms by (rule remount_flags_order)
  moreover have "\<not> bit (remount_flags mount_flags_procfs opts) 0"
    by (simp add: remount_flags_bit mount_flags_procfs_def MS_REMOUNT_def)
  ultimately show ?thesis by (simp only: remount_flags_value) simp
qed

theorem remount_flags_any_order_witness:
  "remount_flags (rev mount_flags_procfs) [''ro'' \<mapsto> [], ''nosuid'' \<mapsto> [], ''relatime'' \<mapsto> []] = 2097186"
  using remount_flags_any_order [of "rev mount_flags_procfs" "[''ro'' \<mapsto> [], ''nosuid'' \<mapsto> [], ''relatime'' \<mapsto> []]"]
  by simp


text \<open>
  C32: which properties are reset: a read-only one that is not long, and whose serial says it
  was modified or whose value array holds something after the end of the string.
\<close>

theorem shouldResetProperty_criteria:
  assumes "length (prop_value pi) = PROP_VALUE_MAX"
  shows "shouldResetProperty pi \<longleftrightarrow>
     starts_with (prop_name pi) ''ro.'' \<and> \<not> prop_is_long pi
     \<and> (prop_serial pi AND 16777215 \<noteq> 0
        \<or> (\<exists>c \<in> set (dropWhile (\<lambda>c. c \<noteq> NUL) (prop_value pi)). c \<noteq> NUL))"
  using assms by (rule shouldResetProperty_iff)

definition stale_prop :: prop_info where
  "stale_prop = \<lparr>prop_name = ''ro.debuggable'', prop_serial = 16777216, prop_is_long = False,
     prop_value = ''0'' @ NUL # ''old'' @ replicate 87 NUL\<rparr>"

definition clean_prop :: prop_info where
  "clean_prop = \<lparr>prop_name = ''ro.secure'', prop_serial = 16777216, prop_is_long = False,
     prop_value = ''1'' @ replicate 91 NUL\<rparr>"

theorem shouldResetProperty_criteria_witness:
  "shouldResetProperty stale_prop \<and> \<not> shouldResetProperty clean_prop"
  by (subst (1 2) shouldResetProperty_criteria)
    (simp_all add: stale_prop_def clean_prop_def PROP_VALUE_MAX_def)

text \<open>
  C31: the reset of the properties. After an initialisation that succeeds or was done before,
  every property that must be reset is updated once, in the order of the area, with its own
  text cut at the last place of the array, and the counter grows by their number.
\<close>

theorem doMrProp_resets:
  assumes "\<And>h. list_all (\<lambda>pi. length (prop_value pi) = PROP_VALUE_MAX) (env_props E h)"
    and "prop_initialized s \<or> env_prop_init E (history s) \<noteq> - 1"
  defines "inits \<equiv> if prop_initialized s then [] else [Ev_prop_init (env_prop_init E (history s))]"
  defines "todo \<equiv> filter shouldResetProperty (env_props E (history s @ inits))"
  shows "run_state (doMrProp E) s =
     ((), s\<lparr>history := history s @ inits @ Ev_prop_foreach #
              map (\<lambda>pi. Ev_prop_update (prop_name pi)
                (takeWhile (\<lambda>c. c \<noteq> NUL) (take 91 (prop_value pi)))) todo,
            prop_initialized := True,
            resetCount := resetCount s + word_of_nat (length todo)\<rparr>)"
proof -
  have "\<And>h. \<forall>pi \<in> set (env_props E h). length (prop_value pi) = PROP_VALUE_MAX"
    using assms(1) by (simp add: list_all_iff)
  from doMrProp_run [OF this assms(2)] show ?thesis
    unfolding inits_def todo_def by (simp add: prop_text_def PROP_VALUE_MAX_def)
qed

definition props_env :: env where
  "props_env = calm_env\<lparr>env_props := (\<lambda>h. [clean_prop, stale_prop])\<rparr>"

lemma stale_selected: "shouldResetProperty stale_prop"
  by (subst shouldResetProperty_iff) (simp_all add: stale_prop_def PROP_VALUE_MAX_def)

lemma clean_kept: "\<not> shouldResetProperty clean_prop"
  by (subst shouldResetProperty_iff) (simp_all add: clean_prop_def PROP_VALUE_MAX_def)

theorem doMrProp_resets_witness:
  "history (snd (run_state (doMrProp props_env) fresh_process)) =
     [Ev_prop_init 0, Ev_prop_foreach, Ev_prop_update ''ro.debuggable'' ''0'']"
proof -
  have arrays: "list_all (\<lambda>pi. length (prop_value pi) = PROP_VALUE_MAX) (env_props props_env h)" for h
    by (simp add: props_env_def clean_prop_def stale_prop_def PROP_VALUE_MAX_def)
  have init: "prop_initialized fresh_process \<or> env_prop_init props_env (history fresh_process) \<noteq> - 1"
    by (simp add: props_env_def)
  show ?thesis
    unfolding doMrProp_resets [OF arrays init]
    by (simp add: props_env_def stale_selected clean_kept) (simp add: stale_prop_def)
qed

text \<open>
  When the property area cannot be initialised nothing is read or updated, and the next
  call tries again.
\<close>

theorem doMrProp_gives_up:
  assumes "\<not> prop_initialized s" and "env_prop_init E (history s) = - 1"
  shows "run_state (doMrProp E) s = ((), s\<lparr>history := history s @ [Ev_prop_init (- 1)]\<rparr>)"
  using assms by (rule doMrProp_fails)

theorem doMrProp_gives_up_witness:
  "resetCount (snd (run_state (doMrProp (props_env\<lparr>env_prop_init := (\<lambda>h. - 1)\<rparr>)) fresh_process)) = 0"
  by (subst doMrProp_gives_up) simp_all

end
