(* ===== verification/Main_Module.thy ===== *)
theory Main_Module
  imports Fd_Reopener Modules
begin

text \<open>
  \<open>main.cpp\<close>: the two PLT hooks, the callback that runs once in the first of them, the
  specialization handlers of the module, and the companion process. A result \<open>None\<close> is a
  call through a null function pointer; the process stops there. \<open>errno\<close> and the log are
  not part of the state.
\<close>

section \<open>The saved functions\<close>

definition CLONE_NEWNS :: c_int where "CLONE_NEWNS = 131072"
definition MS_SLAVE :: u64 where "MS_SLAVE = 524288"
definition MS_REC :: u64 where "MS_REC = 16384"

definition call_old_unshare :: "env \<Rightarrow> c_int \<Rightarrow> (proc, c_int option) state" where
  "call_old_unshare E flags = do {
     p \<leftarrow> gets old_unshare;
     case p of
       None \<Rightarrow> State_Monad.return None
     | Some a \<Rightarrow> do {
         ret \<leftarrow> call (\<lambda>h. env_unshare E h flags) (Ev_unshare a flags);
         State_Monad.return (Some ret) } }"

definition call_old_setresuid :: "env \<Rightarrow> u32 \<times> u32 \<times> u32 \<Rightarrow> (proc, c_int option) state" where
  "call_old_setresuid E ids = (case ids of (ruid, euid, suid) \<Rightarrow> do {
     p \<leftarrow> gets old_setresuid;
     case p of
       None \<Rightarrow> State_Monad.return None
     | Some a \<Rightarrow> do {
         ret \<leftarrow> call (\<lambda>h. env_setresuid E h ruid euid suid) (Ev_setresuid a ruid euid suid);
         State_Monad.return (Some ret) } })"

section \<open>The callback\<close>

definition new_mount_ns :: "env \<Rightarrow> (proc, bool option) state" where
  "new_mount_ns E = do {
     ret \<leftarrow> call_old_unshare E CLONE_NEWNS;
     case ret of
       None \<Rightarrow> State_Monad.return None
     | Some r \<Rightarrow>
         if r = - 1 then State_Monad.return (Some False)
         else do {
           m \<leftarrow> sys_mount E (Some ''rootfs'') ''/'' None (MS_SLAVE OR MS_REC) None;
           State_Monad.return (Some (m \<noteq> - 1)) } }"

text \<open>The representation of a \<open>pid_t\<close> in memory, least significant byte first.\<close>

definition bytes_of_int :: "c_int \<Rightarrow> byte list" where
  "bytes_of_int v = [ucast v, ucast (drop_bit 8 v), ucast (drop_bit 16 v), ucast (drop_bit 24 v)]"

definition int_of_bytes :: "byte list \<Rightarrow> c_int" where
  "int_of_bytes bs = foldr (\<lambda>b v. ucast b OR push_bit 8 v) bs 0"

text \<open>The loop that runs once and is left at the first short write or read.\<close>

definition companion_request :: "env \<Rightarrow> fd \<Rightarrow> (proc, bool) state" where
  "companion_request E f = do {
     pid \<leftarrow> sys_getpid E;
     written \<leftarrow> sys_write E f (bytes_of_int pid);
     if written \<noteq> 4 then State_Monad.return False
     else do {
       answer \<leftarrow> sys_read E f 1;
       State_Monad.return (case answer of Some [b] \<Rightarrow> b \<noteq> 0 | _ \<Rightarrow> False) } }"

definition ask_companion :: "env \<Rightarrow> fd \<Rightarrow> (proc, bool) state" where
  "ask_companion E f =
     (if f \<noteq> no_fd then do {
        result \<leftarrow> companion_request E f;
        sys_close f;
        State_Monad.return result }
      else State_Monad.return False)"

definition hide_callback :: "env \<Rightarrow> fd \<Rightarrow> (proc, unit option) state" where
  "hide_callback E f = do {
     modify (callbackFunction_update (\<lambda>_. Empty_callback));
     srr \<leftarrow> ScopedRegularReopener E;
     ns \<leftarrow> new_mount_ns E;
     case ns of
       None \<Rightarrow> State_Monad.return None
     | Some ok \<Rightarrow>
         if \<not> ok then do {
           ScopedRegularReopener_end srr;
           State_Monad.return (Some ()) }
         else do {
           result \<leftarrow> ask_companion E f;
           (if result then State_Monad.return () else doUnmount E);
           doHideZygisk E;
           ScopedRegularReopener_end srr;
           State_Monad.return (Some ()) } }"

definition run_callback :: "env \<Rightarrow> (proc, unit option) state" where
  "run_callback E = do {
     cb \<leftarrow> gets callbackFunction;
     case cb of
       Empty_callback \<Rightarrow> State_Monad.return (Some ())
     | Hide_callback f \<Rightarrow> hide_callback E f }"

section \<open>The hooks\<close>

text \<open>The rest of \<open>new_unshare\<close> after the callback.\<close>

definition unshare_rest :: "env \<Rightarrow> c_int \<Rightarrow> (proc, c_int option) state" where
  "unshare_rest E flags =
     (let flags = flags AND NOT CLONE_NEWNS in
      if flags = 0 then State_Monad.return (Some 0) else call_old_unshare E flags)"

definition new_unshare :: "env \<Rightarrow> c_int \<Rightarrow> (proc, c_int option) state" where
  "new_unshare E flags = do {
     ok \<leftarrow> run_callback E;
     case ok of None \<Rightarrow> State_Monad.return None | Some _ \<Rightarrow> unshare_rest E flags }"

definition new_setresuid :: "env \<Rightarrow> u32 \<times> u32 \<times> u32 \<Rightarrow> (proc, c_int option) state" where
  "new_setresuid E ids = do {
     ok \<leftarrow> run_callback E;
     case ok of None \<Rightarrow> State_Monad.return None | Some _ \<Rightarrow> call_old_setresuid E ids }"

section \<open>The module\<close>

definition onLoad :: "api_table \<Rightarrow> (proc, unit) state" where
  "onLoad api = modify (module_api_update (\<lambda>_. Some api))"

definition module_hookPLT ::
    "env \<Rightarrow> api_table \<Rightarrow> string \<Rightarrow> string \<Rightarrow> hook_fn \<Rightarrow> slot option \<Rightarrow> (proc, bool) state" where
  "module_hookPLT E api libName symbolName hookFunction originalFunction = do {
     found \<leftarrow> hookPLTByName E api libName symbolName hookFunction originalFunction;
     if found then Api_pltHookCommit api else State_Monad.return False }"

abbreviation runtime_lib :: string where
  "runtime_lib \<equiv> ''libandroid_runtime.so''"

definition preAppSpecialize :: "env \<Rightarrow> AppSpecializeArgs \<Rightarrow> (proc, unit option) state" where
  "preAppSpecialize E args = do {
     this_api \<leftarrow> gets module_api;
     case this_api of
       None \<Rightarrow> State_Monad.return None
     | Some api \<Rightarrow> do {
         Api_setOption api DLCLOSE_MODULE_LIBRARY;
         flags \<leftarrow> Api_getFlags api;
         let isRoot = (flags AND PROCESS_GRANTED_ROOT \<noteq> 0);
         let isOnDenylist = (flags AND PROCESS_ON_DENYLIST \<noteq> 0);
         if isRoot \<or> \<not> isOnDenylist \<or> \<not> isUserAppUID (uid args) then State_Monad.return (Some ())
         else do {
           hooked \<leftarrow> module_hookPLT E api runtime_lib ''unshare'' New_unshare (Some Slot_unshare);
           if \<not> hooked then State_Monad.return (Some ())
           else do {
             hooked \<leftarrow> module_hookPLT E api runtime_lib ''setresuid'' New_setresuid (Some Slot_setresuid);
             if \<not> hooked then State_Monad.return (Some ())
             else do {
               companionFd \<leftarrow> Api_connectCompanion api;
               exempted \<leftarrow> (if companionFd \<noteq> no_fd then Api_exemptFd api companionFd
                            else State_Monad.return False);
               modify (callbackFunction_update (\<lambda>_. Hide_callback companionFd));
               State_Monad.return (Some ()) } } } } }"

definition preServerSpecialize :: "(proc, unit option) state" where
  "preServerSpecialize = do {
     this_api \<leftarrow> gets module_api;
     case this_api of
       None \<Rightarrow> State_Monad.return None
     | Some api \<Rightarrow> do {
         Api_setOption api DLCLOSE_MODULE_LIBRARY;
         State_Monad.return (Some ()) } }"

definition postAppSpecialize :: "env \<Rightarrow> (proc, unit option) state" where
  "postAppSpecialize E = do {
     this_api \<leftarrow> gets module_api;
     p \<leftarrow> gets old_unshare;
     ok \<leftarrow> (case p of
             None \<Rightarrow> State_Monad.return (Some ())
           | Some f \<Rightarrow> (case this_api of
               None \<Rightarrow> State_Monad.return None
             | Some api \<Rightarrow> do {
                 unhooked \<leftarrow> module_hookPLT E api runtime_lib ''unshare'' (Saved f) None;
                 State_Monad.return (Some ()) }));
     case ok of
       None \<Rightarrow> State_Monad.return None
     | Some _ \<Rightarrow> do {
         p \<leftarrow> gets old_setresuid;
         case p of
           None \<Rightarrow> State_Monad.return (Some ())
         | Some f \<Rightarrow> (case this_api of
             None \<Rightarrow> State_Monad.return None
           | Some api \<Rightarrow> do {
               unhooked \<leftarrow> module_hookPLT E api runtime_lib ''setresuid'' (Saved f) None;
               State_Monad.return (Some ()) }) } }"

text \<open>The class overrides every virtual method but \<open>postServerSpecialize\<close>.\<close>

definition ZygiskModule :: "env \<Rightarrow> ModuleBase" where
  "ZygiskModule E = ModuleBase_defaults\<lparr>vt_onLoad := onLoad,
     vt_preAppSpecialize := preAppSpecialize E,
     vt_preServerSpecialize := (\<lambda>args. preServerSpecialize),
     vt_postAppSpecialize := (\<lambda>args. postAppSpecialize E)\<rparr>"

definition zygisk_module_entry :: "env \<Rightarrow> api_table \<Rightarrow> (proc, unit) state" where
  "zygisk_module_entry E table = entry_impl (ZygiskModule E) table"

section \<open>The companion\<close>

text \<open>What the forked child does in the namespace of the app, with its exit code.\<close>

definition companion_child :: "env \<Rightarrow> c_int \<Rightarrow> (proc, c_int) state" where
  "companion_child E pid = do {
     ok \<leftarrow> switchMountNS E pid;
     if \<not> ok then State_Monad.return 1
     else do {
       doUnmount E;
       doRemount E;
       doMrProp E;
       State_Monad.return 0 } }"

definition zygisk_companion_handler :: "env \<Rightarrow> fd \<Rightarrow> (proc, unit) state" where
  "zygisk_companion_handler E f = do {
     request \<leftarrow> sys_read E f 4;
     (case request of
        None \<Rightarrow> State_Monad.return ()
      | Some bs \<Rightarrow>
          if length bs \<noteq> 4 then State_Monad.return ()
          else do {
            status \<leftarrow> forkAndInvoke E (companion_child E (int_of_bytes bs));
            let result = WIFEXITED status;
            written \<leftarrow> sys_write E f [if result then 1 else 0];
            State_Monad.return () }) }"

definition zygisk_companion_entry :: "env \<Rightarrow> fd \<Rightarrow> (proc, unit) state" where
  "zygisk_companion_entry E client = zygisk_companion_handler E client"

section \<open>The pid on the wire\<close>

lemma int_of_bytes_of_int: "int_of_bytes (bytes_of_int v) = v"
proof (rule bit_word_eqI)
  fix n
  assume "n < LENGTH(32)"
  then have "n < 8 \<or> 8 \<le> n \<and> n < 16 \<or> 16 \<le> n \<and> n < 24 \<or> 24 \<le> n \<and> n < 32" by auto
  then show "bit (int_of_bytes (bytes_of_int v)) n = bit v n"
    by (auto simp: int_of_bytes_def bytes_of_int_def bit_simps)
qed

lemma length_bytes_of_int [simp]: "length (bytes_of_int v) = 4"
  by (simp add: bytes_of_int_def)

section \<open>What the callback keeps\<close>

lemma keeps_reopener [keeps_intros]:
  assumes "\<And>s h. f (s\<lparr>history := h\<rparr>) = f s"
  shows "keeps f (ScopedRegularReopener E)"
proof -
  have "keeps f (collect_fds E fds)" for fds
    by (induction fds) (auto intro!: keeps_intros assms)
  then show ?thesis
    using assms by (auto simp: ScopedRegularReopener_def intro!: keeps_intros)
qed

lemma keeps_reopener_end [keeps_intros]:
  "(\<And>s h. f (s\<lparr>history := h\<rparr>) = f s) \<Longrightarrow> keeps f (ScopedRegularReopener_end is)"
  by (auto simp: ScopedRegularReopener_end_def intro!: keeps_intros)

lemma keeps_call_old_unshare [keeps_intros]:
  "(\<And>s h. f (s\<lparr>history := h\<rparr>) = f s) \<Longrightarrow> keeps f (call_old_unshare E flags)"
  by (auto simp: call_old_unshare_def intro!: keeps_intros)

lemma keeps_call_old_setresuid [keeps_intros]:
  "(\<And>s h. f (s\<lparr>history := h\<rparr>) = f s) \<Longrightarrow> keeps f (call_old_setresuid E ids)"
  by (auto simp: call_old_setresuid_def intro!: keeps_intros split: prod.split)

lemma keeps_new_mount_ns [keeps_intros]:
  "(\<And>s h. f (s\<lparr>history := h\<rparr>) = f s) \<Longrightarrow> keeps f (new_mount_ns E)"
  by (auto simp: new_mount_ns_def sys_mount_def intro!: keeps_intros)

lemma keeps_companion_request [keeps_intros]:
  "(\<And>s h. f (s\<lparr>history := h\<rparr>) = f s) \<Longrightarrow> keeps f (companion_request E fd)"
  by (auto simp: companion_request_def sys_getpid_def sys_write_def sys_read_def
      intro!: keeps_intros)

lemma keeps_ask_companion [keeps_intros]:
  "(\<And>s h. f (s\<lparr>history := h\<rparr>) = f s) \<Longrightarrow> keeps f (ask_companion E fd)"
  by (auto simp: ask_companion_def sys_close_def intro!: keeps_intros)

lemma keeps_unshare_rest [keeps_intros]:
  "(\<And>s h. f (s\<lparr>history := h\<rparr>) = f s) \<Longrightarrow> keeps f (unshare_rest E flags)"
  by (auto simp: unshare_rest_def Let_def intro!: keeps_intros)

text \<open>The callback after the new namespace.\<close>

definition hide_tail :: "env \<Rightarrow> fd \<Rightarrow> fd_info list \<Rightarrow> bool option \<Rightarrow> (proc, unit option) state" where
  "hide_tail E f srr ns =
     (case ns of
       None \<Rightarrow> State_Monad.return None
     | Some ok \<Rightarrow>
         if \<not> ok then do {
           ScopedRegularReopener_end srr;
           State_Monad.return (Some ()) }
         else do {
           result \<leftarrow> ask_companion E f;
           (if result then State_Monad.return () else doUnmount E);
           doHideZygisk E;
           ScopedRegularReopener_end srr;
           State_Monad.return (Some ()) })"

text \<open>After the first step of the callback, nothing in it touches the static variables.\<close>

definition hide_body :: "env \<Rightarrow> fd \<Rightarrow> (proc, unit option) state" where
  "hide_body E f = do {
     srr \<leftarrow> ScopedRegularReopener E;
     ns \<leftarrow> new_mount_ns E;
     hide_tail E f srr ns }"

lemma hide_callback_body:
  "hide_callback E f = do {
     modify (callbackFunction_update (\<lambda>_. Empty_callback)); hide_body E f }"
  by (simp add: hide_callback_def hide_body_def hide_tail_def)

lemma keeps_hide_body:
  assumes "\<And>s h. g (s\<lparr>history := h\<rparr>) = g s" and "\<And>s c. g (s\<lparr>mountinfo_cache := c\<rparr>) = g s"
    and "\<And>s c. g (s\<lparr>maps_cache := c\<rparr>) = g s" and "\<And>s m. g (s\<lparr>memory := m\<rparr>) = g s"
  shows "keeps g (hide_body E f)"
  using assms
  by (auto simp: hide_body_def hide_tail_def intro!: keeps_intros)

lemma hide_callback_statics:
  "statics (snd (run_state (hide_callback E f) s)) = statics (s\<lparr>callbackFunction := Empty_callback\<rparr>)"
proof -
  have "keeps statics (hide_body E f)"
    by (rule keeps_hide_body) (simp_all add: statics_def)
  then show ?thesis by (simp add: hide_callback_body keeps_run)
qed

section \<open>Hooks that fire once\<close>

text \<open>
  The contract both hooks share: a hook fires the callback and then does its own work, which
  leaves the callback alone; firing empties the callback, and an empty callback does nothing.
\<close>

locale one_shot_hook =
  fixes fire :: "(proc, unit option) state"
    and own_work :: "'a \<Rightarrow> (proc, 'r option) state"
    and hook :: "'a \<Rightarrow> (proc, 'r option) state"
  assumes hook_eq: "hook a = do {
      ok \<leftarrow> fire; case ok of None \<Rightarrow> State_Monad.return None | Some _ \<Rightarrow> own_work a }"
    and fire_disarms: "callbackFunction (snd (run_state fire s)) = Empty_callback"
    and fire_idle: "callbackFunction s = Empty_callback \<Longrightarrow> run_state fire s = (Some (), s)"
    and own_work_keeps: "keeps callbackFunction (own_work a)"
begin

lemma hook_disarms: "callbackFunction (snd (run_state (hook a) s)) = Empty_callback"
proof -
  obtain r t where fire: "run_state fire s = (r, t)" by fastforce
  then have "callbackFunction t = Empty_callback" using fire_disarms [of s] by simp
  with fire show ?thesis
    by (cases r) (simp_all add: hook_eq keeps_run [OF own_work_keeps])
qed

lemma hook_idle:
  "callbackFunction s = Empty_callback \<Longrightarrow> run_state (hook a) s = run_state (own_work a) s"
  by (simp add: hook_eq fire_idle)

lemma hook_twice:
  "run_state (hook b) (snd (run_state (hook a) s)) = run_state (own_work b) (snd (run_state (hook a) s))"
  by (rule hook_idle) (rule hook_disarms)

lemma hook_history:
  assumes "\<And>a. emits P (own_work a)"
  shows "\<exists>es. history (snd (run_state (hook a) s)) = history (snd (run_state fire s)) @ es
     \<and> list_all P es"
proof -
  obtain r t where fire: "run_state fire s = (r, t)" by fastforce
  show ?thesis
  proof (cases r)
    case None
    with fire show ?thesis by (simp add: hook_eq)
  next
    case (Some u)
    obtain x v where own: "run_state (own_work a) t = (x, v)" by fastforce
    obtain es where "history v = history t @ es" and "list_all P es"
      using assms own by (rule emitsD)
    with fire own Some show ?thesis by (simp add: hook_eq)
  qed
qed

end

lemma run_callback_disarms: "callbackFunction (snd (run_state (run_callback E) s)) = Empty_callback"
proof (cases "callbackFunction s")
  case Empty_callback
  then show ?thesis by (simp add: run_callback_def)
next
  case (Hide_callback f)
  then show ?thesis
    using hide_callback_statics [of E f s] by (simp add: run_callback_def statics_def)
qed

lemma run_callback_idle:
  "callbackFunction s = Empty_callback \<Longrightarrow> run_state (run_callback E) s = (Some (), s)"
  by (simp add: run_callback_def)

interpretation unshare_hook: one_shot_hook "run_callback E" "unshare_rest E" "new_unshare E" for E
  by unfold_locales
    (auto simp: new_unshare_def run_callback_disarms run_callback_idle intro: keeps_intros)

interpretation setresuid_hook:
  one_shot_hook "run_callback E" "call_old_setresuid E" "new_setresuid E" for E
  by unfold_locales
    (auto simp: new_setresuid_def run_callback_disarms run_callback_idle intro: keeps_intros)

section \<open>A specialization\<close>

text \<open>
  The framework reaches the hooks in an order the module does not choose: any sequence of
  calls, which stops at a crash.
\<close>

datatype hook_call = Call_unshare c_int | Call_setresuid u32 u32 u32

fun run_hook :: "env \<Rightarrow> hook_call \<Rightarrow> (proc, c_int option) state" where
  "run_hook E (Call_unshare flags) = new_unshare E flags"
| "run_hook E (Call_setresuid r e s) = new_setresuid E (r, e, s)"

primrec run_hooks :: "env \<Rightarrow> hook_call list \<Rightarrow> (proc, unit option) state" where
  "run_hooks E [] = State_Monad.return (Some ())"
| "run_hooks E (c # cs) = do {
     ret \<leftarrow> run_hook E c;
     case ret of None \<Rightarrow> State_Monad.return None | Some _ \<Rightarrow> run_hooks E cs }"

text \<open>The calls a hook passes on: never with \<open>CLONE_NEWNS\<close>, never without a flag.\<close>

fun passed_on :: "event \<Rightarrow> bool" where
  "passed_on (Ev_unshare a flags r) \<longleftrightarrow> flags AND CLONE_NEWNS = 0 \<and> flags \<noteq> 0"
| "passed_on (Ev_setresuid a r e s ret) \<longleftrightarrow> True"
| "passed_on _ \<longleftrightarrow> False"

lemma emits_unshare_rest: "emits passed_on (unshare_rest E flags)"
proof -
  have "(flags AND NOT CLONE_NEWNS) AND CLONE_NEWNS = 0"
    by (simp add: bit.conj_cancel_left and.assoc)
  then show ?thesis
    by (auto simp: unshare_rest_def call_old_unshare_def Let_def intro!: emits_intros)
qed

lemma emits_call_old_setresuid: "emits passed_on (call_old_setresuid E ids)"
  by (auto simp: call_old_setresuid_def intro!: emits_intros split: prod.split)

lemma run_hook_disarms: "callbackFunction (snd (run_state (run_hook E c) s)) = Empty_callback"
  by (cases c) (simp_all add: unshare_hook.hook_disarms setresuid_hook.hook_disarms)

lemma run_hook_idle:
  assumes "callbackFunction s = Empty_callback" and "run_state (run_hook E c) s = (r, t)"
  obtains es where "history t = history s @ es" and "list_all passed_on es"
proof (cases c)
  case (Call_unshare flags)
  with assms have "run_state (unshare_rest E flags) s = (r, t)"
    by (simp add: unshare_hook.hook_idle)
  then show ?thesis by (rule emitsD [OF emits_unshare_rest]) (rule that)
next
  case (Call_setresuid a b d)
  with assms have "run_state (call_old_setresuid E (a, b, d)) s = (r, t)"
    by (simp add: setresuid_hook.hook_idle)
  then show ?thesis by (rule emitsD [OF emits_call_old_setresuid]) (rule that)
qed

lemma run_hooks_idle:
  assumes "callbackFunction s = Empty_callback"
  shows "\<exists>es. history (snd (run_state (run_hooks E cs) s)) = history s @ es
     \<and> list_all passed_on es"
  using assms
proof (induction cs arbitrary: s)
  case Nil
  then show ?case by simp
next
  case (Cons c cs)
  obtain r t where step: "run_state (run_hook E c) s = (r, t)" by fastforce
  obtain es where es: "history t = history s @ es" "list_all passed_on es"
    using Cons.prems step by (rule run_hook_idle)
  have "callbackFunction t = Empty_callback"
    using run_hook_disarms [of E c s] step by simp
  then obtain es' where "history (snd (run_state (run_hooks E cs) t)) = history t @ es'"
    and "list_all passed_on es'"
    using Cons.IH by blast
  with step es show ?case
    by (cases r) (force intro: exI [of _ es] exI [of _ "es @ es'"])+
qed

text \<open>The callback's events come first, all the rest is passed on.\<close>

lemma run_hooks_once:
  "\<exists>es. history (snd (run_state (run_hooks E (c # cs)) s)) =
       history (snd (run_state (run_callback E) s)) @ es \<and> list_all passed_on es"
proof -
  obtain r t where step: "run_state (run_hook E c) s = (r, t)" by fastforce
  have "\<exists>es. history t = history (snd (run_state (run_callback E) s)) @ es \<and> list_all passed_on es"
    using step unshare_hook.hook_history [OF emits_unshare_rest, of E _ s]
      setresuid_hook.hook_history [OF emits_call_old_setresuid, of E _ s]
    by (cases c) (metis run_hook.simps snd_conv)+
  then obtain es where es: "history t = history (snd (run_state (run_callback E) s)) @ es"
    "list_all passed_on es" by blast
  have "callbackFunction t = Empty_callback"
    using run_hook_disarms [of E c s] step by simp
  then obtain es' where "history (snd (run_state (run_hooks E cs) t)) = history t @ es'"
    and "list_all passed_on es'"
    using run_hooks_idle by blast
  with step es show ?thesis
    by (cases r) (force intro: exI [of _ es] exI [of _ "es @ es'"])+
qed

section \<open>New mount namespaces\<close>

fun unshares_mounts :: "event \<Rightarrow> bool" where
  "unshares_mounts (Ev_unshare a flags r) \<longleftrightarrow> flags AND CLONE_NEWNS \<noteq> 0"
| "unshares_mounts _ \<longleftrightarrow> False"

definition mount_unshares :: "history \<Rightarrow> nat" where
  "mount_unshares h = length (filter unshares_mounts h)"

lemma mount_unshares_append [simp]: "mount_unshares (h @ h') = mount_unshares h + mount_unshares h'"
  by (simp add: mount_unshares_def)

lemma mount_unshares_none: "list_all (\<lambda>e. \<not> unshares_mounts e) es \<Longrightarrow> mount_unshares es = 0"
  by (simp add: mount_unshares_def list_all_iff filter_empty_conv)

lemma passed_on_no_unshare: "passed_on e \<Longrightarrow> \<not> unshares_mounts e"
  by (cases e) simp_all

abbreviation no_mount_unshare :: "(proc, 'a) state \<Rightarrow> bool" where
  "no_mount_unshare \<equiv> emits (\<lambda>e. \<not> unshares_mounts e)"

lemma no_mount_unshare_same:
  "no_mount_unshare m \<Longrightarrow> run_state m s = (a, t) \<Longrightarrow> mount_unshares (history t) = mount_unshares (history s)"
  by (erule (1) emitsD) (simp add: mount_unshares_none)

lemma new_mount_ns_unshares:
  "run_state (new_mount_ns E) s = (r, t) \<Longrightarrow>
     mount_unshares (history t) \<le> Suc (mount_unshares (history s))"
  by (auto simp: new_mount_ns_def call_old_unshare_def run_simps mount_unshares_def
      split: option.splits if_splits)

lemma emits_companion_request [emits_intros]:
  assumes "\<And>r. P (Ev_getpid r)" and "\<And>bs r. P (Ev_write f bs r)" and "\<And>n r. P (Ev_read f n r)"
  shows "emits P (companion_request E f)"
  using assms
  by (auto simp: companion_request_def sys_getpid_def sys_write_def sys_read_def
      intro!: emits_intros)

lemma emits_ask_companion [emits_intros]:
  assumes "\<And>r. P (Ev_getpid r)" and "\<And>bs r. P (Ev_write f bs r)" and "\<And>n r. P (Ev_read f n r)"
    and "P (Ev_close f)"
  shows "emits P (ask_companion E f)"
  using assms by (auto simp: ask_companion_def sys_close_def intro!: emits_intros)

lemma hide_tail_no_unshare: "no_mount_unshare (hide_tail E f srr ns)"
  by (auto simp: hide_tail_def intro!: emits_intros)

lemma run_callback_unshares:
  "mount_unshares (history (snd (run_state (run_callback E) s))) \<le> Suc (mount_unshares (history s))"
proof (cases "callbackFunction s")
  case Empty_callback
  then show ?thesis by (simp add: run_callback_idle)
next
  case (Hide_callback f)
  let ?s = "s\<lparr>callbackFunction := Empty_callback\<rparr>"
  obtain srr t where c: "run_state (ScopedRegularReopener E) ?s = (srr, t)" by fastforce
  obtain ns u where n: "run_state (new_mount_ns E) t = (ns, u)" by fastforce
  obtain r v where e: "run_state (hide_tail E f srr ns) u = (r, v)" by fastforce
  have "mount_unshares (history v) = mount_unshares (history u)"
    using hide_tail_no_unshare e by (rule no_mount_unshare_same)
  moreover have "mount_unshares (history u) \<le> Suc (mount_unshares (history t))"
    using n by (rule new_mount_ns_unshares)
  moreover have "no_mount_unshare (ScopedRegularReopener E)"
    by (auto intro!: emits_intros)
  then have "mount_unshares (history t) = mount_unshares (history ?s)"
    using c by (rule no_mount_unshare_same)
  ultimately show ?thesis
    using c n e Hide_callback by (simp add: run_callback_def hide_callback_body hide_body_def)
qed

lemma run_hooks_unshares:
  "mount_unshares (history (snd (run_state (run_hooks E cs) s))) \<le> Suc (mount_unshares (history s))"
proof (cases cs)
  case Nil
  then show ?thesis by simp
next
  case (Cons c cs')
  obtain es where "history (snd (run_state (run_hooks E cs) s)) =
      history (snd (run_state (run_callback E) s)) @ es" and "list_all passed_on es"
    using run_hooks_once unfolding Cons by blast
  moreover have "mount_unshares es = 0"
    using \<open>list_all passed_on es\<close>
    by (auto intro!: mount_unshares_none simp: list_all_iff passed_on_no_unshare)
  ultimately show ?thesis using run_callback_unshares [of E s] by simp
qed

section \<open>Fallback, cleanup\<close>

lemma hide_tail_umounts:
  assumes "run_state (ask_companion E f) u = (result, w)"
  shows "umounts (history (snd (run_state (hide_tail E f srr (Some True)) u))) =
     umounts (history u)
     @ (if result then []
        else map (\<lambda>m. (mount_point m, MNT_DETACH)) (selected (mountinfo_contents E (history w))))"
proof -
  have ask: "umounts (history w) = umounts (history u)"
    using assms by (rule no_umount_same [rotated]) (auto intro!: emits_intros)
  define x where "x = (if result then w else snd (run_state (doUnmount E) w))"
  have x: "umounts (history x) = umounts (history u)
      @ (if result then []
        else map (\<lambda>m. (mount_point m, MNT_DETACH)) (selected (mountinfo_contents E (history w))))"
    using ask doUnmount_umounts [of E w] by (simp add: x_def)
  obtain y where y: "run_state (doHideZygisk E) x = ((), y)"
    by (cases "run_state (doHideZygisk E) x") auto
  have "umounts (history y) = umounts (history x)"
    using y by (rule no_umount_same [rotated]) (auto intro!: emits_intros)
  moreover have "umounts (history z) = umounts (history y)"
    if "run_state (ScopedRegularReopener_end srr) y = (b, z)" for b z
    using that by (rule no_umount_same [rotated]) (auto intro!: emits_intros)
  ultimately show ?thesis
    using assms x y
    by (cases "run_state (ScopedRegularReopener_end srr) y")
      (auto simp: hide_tail_def x_def case_prod_beta)
qed

abbreviation reopened :: "fd_info list \<Rightarrow> history" where
  "reopened srr \<equiv> map (\<lambda>i. Ev_ReopenOrDetach (fdi_fd i) (fdi_file_path i)) srr"

fun reopens :: "event \<Rightarrow> bool" where
  "reopens (Ev_ReopenOrDetach f p) \<longleftrightarrow> True"
| "reopens _ \<longleftrightarrow> False"

lemma hide_tail_reopens:
  assumes "run_state (hide_tail E f srr (Some ok)) u = (r, v)"
  shows "r = Some () \<and>
    (\<exists>es. history v = history u @ es @ reopened srr \<and> list_all (\<lambda>e. \<not> reopens e) es)"
proof (cases ok)
  case False
  with assms show ?thesis by (auto simp: hide_tail_def run_reopener_end intro: exI [of _ "[]"])
next
  case True
  define mid where "mid = do {
     result \<leftarrow> ask_companion E f;
     (if result then State_Monad.return () else doUnmount E);
     doHideZygisk E }"
  obtain w where mid: "run_state mid u = ((), w)" by (cases "run_state mid u") auto
  have "emits (\<lambda>e. \<not> reopens e) mid"
    unfolding mid_def by (auto intro!: emits_intros)
  then obtain es where "history w = history u @ es" and "list_all (\<lambda>e. \<not> reopens e) es"
    using mid by (rule emitsD)
  moreover have "hide_tail E f srr (Some ok) =
      do { mid; ScopedRegularReopener_end srr; State_Monad.return (Some ()) }"
    using True by (simp add: hide_tail_def mid_def)
  ultimately show ?thesis
    using assms mid by (auto simp: run_reopener_end)
qed

fun closes :: "fd \<Rightarrow> event \<Rightarrow> bool" where
  "closes f (Ev_close g) \<longleftrightarrow> f = g"
| "closes f _ \<longleftrightarrow> False"

lemma ask_companion_closes:
  "length (filter (closes f) (history (snd (run_state (ask_companion E f) s)))) =
     length (filter (closes f) (history s)) + (if f = no_fd then 0 else 1)"
proof -
  obtain r t where c: "run_state (companion_request E f) s = (r, t)" by fastforce
  have "emits (\<lambda>e. \<not> closes f e) (companion_request E f)"
    by (auto intro!: emits_intros)
  then obtain es where es: "history t = history s @ es" "list_all (\<lambda>e. \<not> closes f e) es"
    using c by (rule emitsD)
  then have "filter (closes f) es = []"
    by (simp add: list_all_iff filter_empty_conv)
  with c es show ?thesis by (simp add: ask_companion_def sys_close_def)
qed

section \<open>No call through a null pointer\<close>

lemma call_old_unshare_some: "old_unshare s \<noteq> None \<Longrightarrow> fst (run_state (call_old_unshare E fl) s) \<noteq> None"
  by (auto simp: call_old_unshare_def)

lemma call_old_setresuid_some:
  "old_setresuid s \<noteq> None \<Longrightarrow> fst (run_state (call_old_setresuid E ids) s) \<noteq> None"
  by (auto simp: call_old_setresuid_def split: prod.split)

lemma new_mount_ns_some: "old_unshare s \<noteq> None \<Longrightarrow> fst (run_state (new_mount_ns E) s) \<noteq> None"
  by (auto simp: new_mount_ns_def call_old_unshare_def run_simps simp del: not_None_eq)

lemma run_callback_some:
  assumes "old_unshare s \<noteq> None"
  shows "fst (run_state (run_callback E) s) = Some ()"
proof (cases "callbackFunction s")
  case Empty_callback
  then show ?thesis by (simp add: run_callback_idle)
next
  case (Hide_callback f)
  let ?s = "s\<lparr>callbackFunction := Empty_callback\<rparr>"
  obtain srr t where c: "run_state (ScopedRegularReopener E) ?s = (srr, t)" by fastforce
  have "old_unshare t = old_unshare ?s"
    using c by (rule keepsD [rotated]) (auto intro: keeps_intros)
  then obtain ok u where n: "run_state (new_mount_ns E) t = (Some ok, u)"
    using assms new_mount_ns_some [of t E]
    by (cases "run_state (new_mount_ns E) t") auto
  obtain r v where "run_state (hide_tail E f srr (Some ok)) u = (r, v)" by fastforce
  then show ?thesis
    using c n Hide_callback hide_tail_reopens [of E f srr ok u r v]
    by (simp add: run_callback_def hide_callback_body hide_body_def)
qed

lemma run_callback_statics:
  "statics (snd (run_state (run_callback E) s)) = statics (s\<lparr>callbackFunction := Empty_callback\<rparr>)"
proof (cases "callbackFunction s")
  case Empty_callback
  then show ?thesis by (simp add: run_callback_idle statics_eq)
next
  case (Hide_callback f)
  then show ?thesis by (simp add: run_callback_def hide_callback_statics)
qed

lemma run_hook_statics:
  "statics (snd (run_state (run_hook E c) s)) = statics (s\<lparr>callbackFunction := Empty_callback\<rparr>)"
proof -
  obtain r t where cb: "run_state (run_callback E) s = (r, t)" by fastforce
  then have t: "statics t = statics (s\<lparr>callbackFunction := Empty_callback\<rparr>)"
    using run_callback_statics [of E s] by simp
  have "keeps statics (unshare_rest E fl)" "keeps statics (call_old_setresuid E ids)" for fl ids
    by (auto intro!: keeps_intros simp: statics_def)
  then show ?thesis
    using cb t by (cases c; cases r) (simp_all add: new_unshare_def new_setresuid_def keeps_run)
qed

lemma run_hook_some:
  assumes "old_unshare s \<noteq> None" and "old_setresuid s \<noteq> None"
  shows "fst (run_state (run_hook E c) s) \<noteq> None"
proof -
  obtain r t where cb: "run_state (run_callback E) s = (r, t)" by fastforce
  then have "r = Some ()" using run_callback_some [OF assms(1)] by (metis fst_conv)
  moreover have "old_unshare t \<noteq> None" "old_setresuid t \<noteq> None"
    using run_callback_statics [of E s] cb assms by (simp_all add: statics_eq)
  ultimately show ?thesis
    using cb call_old_unshare_some [of t E] call_old_setresuid_some [of t E]
    by (cases c) (auto simp: new_unshare_def new_setresuid_def unshare_rest_def Let_def)
qed

lemma run_hooks_some:
  assumes "old_unshare s \<noteq> None" and "old_setresuid s \<noteq> None"
  shows "fst (run_state (run_hooks E cs) s) = Some ()"
  using assms
proof (induction cs arbitrary: s)
  case Nil
  then show ?case by simp
next
  case (Cons c cs)
  obtain r t where step: "run_state (run_hook E c) s = (r, t)" by fastforce
  then have "r \<noteq> None" using run_hook_some [OF Cons.prems] by (metis fst_conv)
  moreover have "old_unshare t \<noteq> None" "old_setresuid t \<noteq> None"
    using run_hook_statics [of E c s] step Cons.prems by (simp_all add: statics_eq)
  ultimately show ?case using step Cons.IH [of t] by auto
qed

section \<open>Properties\<close>

text \<open>
  One new mount namespace per process. Whatever calls of the two hooks the framework
  makes, with whatever arguments and results, at most one of the calls that reach the real
  \<open>unshare\<close> asks for a mount namespace.
\<close>

theorem hooks_unshare_mounts_once:
  "mount_unshares (history (snd (run_state (run_hooks E calls) s))) \<le> Suc (mount_unshares (history s))"
  by (rule run_hooks_unshares)

text \<open>
  The callback runs in the first hook only. What a sequence of hook calls adds to the
  history is what the callback adds, and after it only the calls that are passed on: to
  \<open>setresuid\<close>, and to \<open>unshare\<close> with at least one flag and never \<open>CLONE_NEWNS\<close>.
\<close>

theorem callback_runs_once:
  "\<exists>passed. history (snd (run_state (run_hooks E (first # calls)) s)) =
       history (snd (run_state (run_callback E) s)) @ passed
     \<and> list_all passed_on passed"
  by (rule run_hooks_once)

text \<open>
  An unshare with nothing to do. When the callback is empty, \<open>CLONE_NEWNS\<close> is taken out
  of the flags; when no flag is left the hook answers success and makes no call.
\<close>

theorem new_unshare_strips:
  assumes "callbackFunction s = Empty_callback" and "old_unshare s = Some f"
  shows "run_state (new_unshare E flags) s =
     (let kept = flags AND NOT CLONE_NEWNS; ret = env_unshare E (history s) kept in
      if kept = 0 then (Some 0, s)
      else (Some ret, s\<lparr>history := history s @ [Ev_unshare f kept ret]\<rparr>))"
  using assms by (simp add: unshare_hook.hook_idle unshare_rest_def call_old_unshare_def Let_def)

theorem new_unshare_strips_witness:
  "history (snd (run_state (new_unshare calm_env (CLONE_NEWNS OR 67108864)) (fresh_process\<lparr>old_unshare := Some 4096\<rparr>))) =
     [Ev_unshare 4096 67108864 0]"
  by (subst new_unshare_strips [where f = 4096]) (simp_all add: CLONE_NEWNS_def)

text \<open>
  The fallback. When the new namespace was made, the callback removes the mounts itself
  exactly when the companion did not answer that it had done so; either way it ends by
  reopening the descriptors it collected before the namespace was made.
\<close>

theorem callback_falls_back:
  assumes "run_state (ScopedRegularReopener E) (s\<lparr>callbackFunction := Empty_callback\<rparr>) = (srr, t)"
    and "run_state (new_mount_ns E) t = (Some True, u)"
    and "run_state (ask_companion E f) u = (hidden, w)"
  shows "umounts (history (snd (run_state (hide_callback E f) s))) =
       umounts (history s)
       @ (if hidden then []
          else map (\<lambda>m. (mount_point m, MNT_DETACH)) (selected (mountinfo_contents E (history w))))
     \<and> (\<exists>es. history (snd (run_state (hide_callback E f) s)) =
           es @ map (\<lambda>i. Ev_ReopenOrDetach (fdi_fd i) (fdi_file_path i)) srr)"
proof -
  have "umounts (history t) = umounts (history s)"
    using assms(1) by (rule no_umount_same [rotated, where s = "s\<lparr>callbackFunction := Empty_callback\<rparr>", simplified])
      (auto intro!: emits_intros)
  moreover have "umounts (history u) = umounts (history t)"
    using assms(2) by (rule no_umount_same [rotated])
      (auto simp: new_mount_ns_def call_old_unshare_def sys_mount_def intro!: emits_intros)
  moreover have run: "run_state (hide_callback E f) s = run_state (hide_tail E f srr (Some True)) u"
    using assms(1,2) by (simp add: hide_callback_body hide_body_def)
  moreover obtain r v where "run_state (hide_tail E f srr (Some True)) u = (r, v)" by fastforce
  ultimately show ?thesis
    using hide_tail_umounts [OF assms(3), of srr] hide_tail_reopens [of E f srr True u r v]
    by auto
qed

definition zygote :: proc where
  "zygote = fresh_process\<lparr>old_unshare := Some 4096, old_setresuid := Some 8192\<rparr>"

theorem callback_falls_back_witness:
  "umounts (history (snd (run_state (hide_callback magisk_env no_fd) zygote))) =
     [(''/system/etc'', 2), (''/sbin'', 2)]"
proof -
  let ?s = "zygote\<lparr>callbackFunction := Empty_callback\<rparr>"
  have reopener: "run_state (ScopedRegularReopener magisk_env) ?s = ([], ?s\<lparr>history := [Ev_GetOpenFds True]\<rparr>)"
    by (subst no_open_fds) (simp_all add: magisk_env_def zygote_def)
  let ?u = "?s\<lparr>history := [Ev_GetOpenFds True, Ev_unshare 4096 CLONE_NEWNS 0,
      Ev_mount (Some ''rootfs'') ''/'' None (MS_SLAVE OR MS_REC) None 0]\<rparr>"
  have ns: "run_state (new_mount_ns magisk_env) (?s\<lparr>history := [Ev_GetOpenFds True]\<rparr>) = (Some True, ?u)"
    by (simp add: new_mount_ns_def call_old_unshare_def run_simps magisk_env_def zygote_def)
  have "run_state (ask_companion magisk_env no_fd) ?u = (False, ?u)" by (simp add: ask_companion_def)
  from callback_falls_back [OF reopener ns this]
  have "umounts (history (snd (run_state (hide_callback magisk_env no_fd) zygote))) =
      map (\<lambda>p. (p, MNT_DETACH)) (map mount_point (selected magisk_table))"
    by (simp add: magisk_contents zygote_def)
  then show ?thesis by (simp add: magisk_selected_points MNT_DETACH_def)
qed

text \<open>
  When the new namespace cannot be made, the callback removes no mount and tells the
  companion nothing, but still reopens the descriptors; the descriptor of the companion is
  not closed on this way out.
\<close>

theorem callback_without_namespace:
  assumes "run_state (ScopedRegularReopener E) (s\<lparr>callbackFunction := Empty_callback\<rparr>) = (srr, t)"
    and "run_state (new_mount_ns E) t = (Some False, u)"
  shows "run_state (hide_callback E f) s =
       (Some (), u\<lparr>history := history u @ map (\<lambda>i. Ev_ReopenOrDetach (fdi_fd i) (fdi_file_path i)) srr\<rparr>)
     \<and> filter (closes f) (history (snd (run_state (hide_callback E f) s))) = filter (closes f) (history s)"
proof -
  have run: "run_state (hide_callback E f) s =
      (Some (), u\<lparr>history := history u @ reopened srr\<rparr>)"
    using assms by (simp add: hide_callback_body hide_body_def hide_tail_def run_reopener_end)
  obtain es where es: "history t = history s @ es" "list_all (\<lambda>e. \<not> closes f e) es"
    using assms(1)
    by (rule emitsD [rotated, where s = "s\<lparr>callbackFunction := Empty_callback\<rparr>" and
          P = "\<lambda>e. \<not> closes f e", simplified]) (auto intro!: emits_intros)
  obtain es' where es': "history u = history t @ es'" "list_all (\<lambda>e. \<not> closes f e) es'"
    using assms(2)
    by (rule emitsD [rotated, where P = "\<lambda>e. \<not> closes f e"])
      (auto simp: new_mount_ns_def call_old_unshare_def sys_mount_def intro!: emits_intros)
  have "filter (closes f) (reopened srr) = []" by (simp add: filter_empty_conv)
  with run es es' show ?thesis by (simp add: list_all_iff filter_empty_conv)
qed

theorem callback_without_namespace_witness:
  "history (snd (run_state (hide_callback (calm_env\<lparr>env_unshare := (\<lambda>h flags. - 1)\<rparr>) (Fd 9)) zygote)) =
     [Ev_GetOpenFds True, Ev_unshare 4096 CLONE_NEWNS (- 1)]"
proof -
  let ?E = "calm_env\<lparr>env_unshare := (\<lambda>h flags. - 1)\<rparr>" and ?s = "zygote\<lparr>callbackFunction := Empty_callback\<rparr>"
  have reopener: "run_state (ScopedRegularReopener ?E) ?s = ([], ?s\<lparr>history := [Ev_GetOpenFds True]\<rparr>)"
    by (subst no_open_fds) (simp_all add: zygote_def)
  have "run_state (new_mount_ns ?E) (?s\<lparr>history := [Ev_GetOpenFds True]\<rparr>) =
      (Some False, ?s\<lparr>history := [Ev_GetOpenFds True, Ev_unshare 4096 CLONE_NEWNS (- 1)]\<rparr>)"
    by (simp add: new_mount_ns_def call_old_unshare_def zygote_def)
  from callback_without_namespace [OF reopener this, of "Fd 9"] show ?thesis by simp
qed

text \<open>
  Once there is a descriptor to the companion and the namespace was made, it is closed
  exactly once, whatever the companion does; without one nothing is closed.
\<close>

theorem ask_companion_closes_once:
  "length (filter (closes f) (history (snd (run_state (ask_companion E f) s)))) =
     length (filter (closes f) (history s)) + (if f = no_fd then 0 else 1)"
  by (rule ask_companion_closes)

text \<open>
  The process id crosses the socket unchanged: the companion reads back from the bytes
  the value the app took the bytes of.
\<close>

theorem pid_roundtrip: "int_of_bytes (bytes_of_int v) = v"
  by (rule int_of_bytes_of_int)

text \<open>
  After the specialization both functions are put back: the saved pointers are registered
  for the first mapping of the runtime library, each with a commit of its own.
\<close>

theorem postAppSpecialize_restores:
  assumes "module_api s = Some api" and "tbl_pltHookRegister api = Some ()"
    and "tbl_pltHookCommit api = Some commit" and "plt_pending s = []"
    and "old_unshare s = Some f" and "old_setresuid s = Some g"
    and "find (\<lambda>m. ends_with (pathname m) ''/libandroid_runtime.so'') (maps_cache s) = Some m"
  shows "\<exists>c1 c2. history (snd (run_state (postAppSpecialize E) s)) = history s @
     [Ev_pltHookRegister (map_device m) (inode m) ''unshare'' (Saved f) None, Ev_pltHookCommit c1,
      Ev_pltHookRegister (map_device m) (inode m) ''setresuid'' (Saved g) None, Ev_pltHookCommit c2]"
proof -
  have "maps_cache s \<noteq> []" using assms(7) by auto
  then have restore: "run_state (module_hookPLT E api runtime_lib symbol h None) t =
      (let h1 = history t @ [Ev_pltHookRegister (map_device m) (inode m) symbol h None];
           c = fst (commit h1) in
       (c, t\<lparr>plt_pending := [], history := h1 @ [Ev_pltHookCommit c]\<rparr>))"
    if "maps_cache t = maps_cache s" "plt_pending t = []" for symbol h t
    using that assms(2,3,7)
    by (simp add: module_hookPLT_def hookPLTByName_def self_maps.read_hit register_first_map_find
        Api_pltHookRegister_def Api_pltHookCommit_def Let_def case_prod_beta)
  then show ?thesis
    using assms(1,4-6) by (simp add: postAppSpecialize_def restore Let_def)
qed

theorem postAppSpecialize_restores_witness:
  "\<exists>c1 c2. history (snd (run_state (postAppSpecialize calm_env)
       (zygote\<lparr>module_api := Some (calm_api 2), maps_cache := [runtime_map]\<rparr>))) =
     [Ev_pltHookRegister 1880 1022 ''unshare'' (Saved 4096) None, Ev_pltHookCommit c1,
      Ev_pltHookRegister 1880 1022 ''setresuid'' (Saved 8192) None, Ev_pltHookCommit c2]"
  using postAppSpecialize_restores [of "zygote\<lparr>module_api := Some (calm_api 2), maps_cache := [runtime_map]\<rparr>"
      "calm_api 2" "\<lambda>h. (True, \<lambda>sl. Some 4096)" 4096 8192 runtime_map calm_env]
  by (simp add: zygote_def calm_api_def runtime_map_def suffix_to_prefix)

end
