(* ===== verification/Arming.thy ===== *)
theory Arming
  imports Main_Module
begin

text \<open>
  When the callback of \<open>main.cpp\<close> is armed: the calls \<open>preAppSpecialize\<close> makes, what a
  commit of the PLT hooks saves, and why no armed hook calls a null pointer.
\<close>

section \<open>Arming the callback\<close>

text \<open>Which parts of the process the Zygisk calls keep.\<close>

lemma keeps_api_query [keeps_intros]:
  assumes "\<And>s h. f (s\<lparr>history := h\<rparr>) = f s"
  shows "keeps f (Api_setOption api opt)" and "keeps f (Api_getFlags api)"
    and "keeps f (Api_connectCompanion api)" and "keeps f (Api_exemptFd api fd)"
  using assms by (auto simp: api_defs intro!: keeps_intros)

lemma emits_api_query [emits_intros]:
  "P (Ev_setOption opt) \<Longrightarrow> emits P (Api_setOption api opt)"
  "(\<And>r. P (Ev_getFlags r)) \<Longrightarrow> emits P (Api_getFlags api)"
  "(\<And>r. P (Ev_connectCompanion r)) \<Longrightarrow> emits P (Api_connectCompanion api)"
  "(\<And>r. P (Ev_exemptFd fd r)) \<Longrightarrow> emits P (Api_exemptFd api fd)"
  by (auto simp: api_defs intro!: emits_intros)

lemma keeps_save_slot [simp]:
  "callbackFunction (save_slot saved sl s) = callbackFunction s"
  "module_api (save_slot saved sl s) = module_api s"
  by (simp_all add: save_slot_def split: option.split slot.split)

lemma fold_save_slot_keeps [simp]:
  "callbackFunction (fold (save_slot saved) sls s) = callbackFunction s"
  "module_api (fold (save_slot saved) sls s) = module_api s"
  by (induction sls arbitrary: s) simp_all

lemma module_hookPLT_callback:
  "keeps (\<lambda>s. (module_api s, callbackFunction s)) (module_hookPLT E api lib symbol hook orig)"
proof -
  have "keeps (\<lambda>s. (module_api s, callbackFunction s)) (Api_pltHookCommit api)"
    by (auto simp: keeps_def Api_pltHookCommit_def case_prod_beta split: option.split)
  then show ?thesis
    by (auto simp: module_hookPLT_def hookPLTByName_def register_first_map_find
        Api_pltHookRegister_def intro!: keeps_intros)
qed

text \<open>
  The documented contract of a commit that succeeds: the original functions of all hooks
  registered since the last commit were saved.
\<close>

definition commits_save :: "api_table \<Rightarrow> bool" where
  "commits_save api \<longleftrightarrow> tbl_pltHookRegister api \<noteq> None
     \<and> (\<forall>f. tbl_pltHookCommit api = Some f \<longrightarrow> (\<forall>h. fst (f h) \<longrightarrow> (\<forall>sl. snd (f h) sl \<noteq> None)))"

definition slot_value :: "slot \<Rightarrow> proc \<Rightarrow> u64 option" where
  "slot_value sl s = (case sl of Slot_unshare \<Rightarrow> old_unshare s | Slot_setresuid \<Rightarrow> old_setresuid s)"

lemma slot_value_save:
  "slot_value sl (save_slot saved sl' s) =
     (if sl = sl' \<and> saved sl \<noteq> None then saved sl else slot_value sl s)"
  by (cases sl; cases sl') (auto simp: slot_value_def save_slot_def split: option.split)

lemma slot_value_fold:
  "(\<forall>sl. saved sl \<noteq> None) \<Longrightarrow> sl \<in> set sls \<or> slot_value sl s \<noteq> None \<Longrightarrow>
     slot_value sl (fold (save_slot saved) sls s) \<noteq> None"
  by (induction sls arbitrary: s) (auto simp: slot_value_save)

lemma slot_value_pending [simp]:
  "slot_value sl (s\<lparr>plt_pending := p\<rparr>) = slot_value sl s"
  "slot_value sl (s\<lparr>history := h\<rparr>) = slot_value sl s"
  "slot_value sl (s\<lparr>maps_cache := c\<rparr>) = slot_value sl s"
  "slot_value sl (s\<lparr>callbackFunction := cb\<rparr>) = slot_value sl s"
  "slot_value sl (plt_pending_update g s) = slot_value sl s"
  by (cases sl; simp add: slot_value_def)+

lemma hookPLTByName_pending:
  assumes "tbl_pltHookRegister api \<noteq> None"
    and "run_state (hookPLTByName E api lib symbol hook (Some sl)) s = (True, t)"
  shows "plt_pending t = plt_pending s @ [sl] \<and> (\<forall>sl'. slot_value sl' t = slot_value sl' s)"
proof -
  obtain maps u where u: "run_state (parseSelfMaps E True) s = (maps, u)" by fastforce
  have "(plt_pending u, \<lambda>sl'. slot_value sl' u) = (plt_pending s, \<lambda>sl'. slot_value sl' s)"
    using u by (rule keepsD [rotated]) (rule keeps_parseSelfMaps; simp)
  then have "plt_pending u = plt_pending s" and "slot_value sl' u = slot_value sl' s" for sl'
    by (auto dest: fun_cong)
  with assms u show ?thesis
    by (auto simp: hookPLTByName_def register_first_map_find Api_pltHookRegister_def
        split: option.splits)
qed

lemma module_hookPLT_saves:
  assumes "commits_save api"
    and "run_state (module_hookPLT E api lib symbol hook (Some sl)) s = (True, t)"
  shows "slot_value sl t \<noteq> None \<and> (\<forall>sl'. slot_value sl' s \<noteq> None \<longrightarrow> slot_value sl' t \<noteq> None)"
proof -
  obtain found u where u: "run_state (hookPLTByName E api lib symbol hook (Some sl)) s = (found, u)"
    by fastforce
  with assms(2) have found: "found" by (auto simp: module_hookPLT_def split: if_splits)
  then have pend: "plt_pending u = plt_pending s @ [sl]" and val: "\<forall>sl'. slot_value sl' u = slot_value sl' s"
    using hookPLTByName_pending u assms(1) by (auto simp: commits_save_def)
  from found u assms(2) have "run_state (Api_pltHookCommit api) u = (True, t)"
    by (simp add: module_hookPLT_def)
  then obtain f where f: "tbl_pltHookCommit api = Some f" and "fst (f (history u))"
    and t: "t = (fold (save_slot (snd (f (history u)))) (plt_pending u) u\<lparr>plt_pending := []\<rparr>)
      \<lparr>history := history u @ [Ev_pltHookCommit True]\<rparr>"
    by (auto simp: Api_pltHookCommit_def case_prod_beta split: option.splits)
  have saved: "\<forall>sl. snd (f (history u)) sl \<noteq> None"
    using assms(1) f \<open>fst (f (history u))\<close> by (simp add: commits_save_def)
  have "slot_value sl' t \<noteq> None" if "sl' \<in> set (plt_pending u) \<or> slot_value sl' u \<noteq> None" for sl'
    unfolding t slot_value_pending by (rule slot_value_fold [OF saved that])
  then show ?thesis using pend val by simp
qed

section \<open>The decision of preAppSpecialize\<close>

definition api_flags :: "api_table \<Rightarrow> history \<Rightarrow> u32" where
  "api_flags api h = (case tbl_getFlags api of None \<Rightarrow> 0 | Some f \<Rightarrow> f h)"

definition after_setOption :: "api_table \<Rightarrow> history \<Rightarrow> history" where
  "after_setOption api h =
     (if tbl_setOption api = None then h else h @ [Ev_setOption DLCLOSE_MODULE_LIBRARY])"

definition after_getFlags :: "api_table \<Rightarrow> history \<Rightarrow> history" where
  "after_getFlags api h =
     (if tbl_getFlags api = None then h else h @ [Ev_getFlags (api_flags api h)])"

definition must_hide :: "u32 \<Rightarrow> AppSpecializeArgs \<Rightarrow> bool" where
  "must_hide flags args \<longleftrightarrow>
     flags AND PROCESS_GRANTED_ROOT = 0 \<and> flags AND PROCESS_ON_DENYLIST \<noteq> 0 \<and> isUserAppUID (uid args)"

definition install_hooks :: "env \<Rightarrow> api_table \<Rightarrow> (proc, unit option) state" where
  "install_hooks E api = do {
     hooked \<leftarrow> module_hookPLT E api runtime_lib ''unshare'' New_unshare (Some Slot_unshare);
     if \<not> hooked then State_Monad.return (Some ())
     else do {
       hooked \<leftarrow> module_hookPLT E api runtime_lib ''setresuid'' New_setresuid (Some Slot_setresuid);
       if \<not> hooked then State_Monad.return (Some ())
       else do {
         companionFd \<leftarrow> Api_connectCompanion api;
         exempted \<leftarrow> (if companionFd \<noteq> no_fd then Api_exemptFd api companionFd
                      else State_Monad.return False);
         modify (callbackFunction_update (\<lambda>_. Hide_callback companionFd));
         State_Monad.return (Some ()) } } }"

lemma run_setOption:
  "run_state (Api_setOption api DLCLOSE_MODULE_LIBRARY) s =
     ((), s\<lparr>history := after_setOption api (history s)\<rparr>)"
  by (auto simp: Api_setOption_def after_setOption_def split: option.split)

lemma run_getFlags:
  "run_state (Api_getFlags api) s =
     (api_flags api (history s), s\<lparr>history := after_getFlags api (history s)\<rparr>)"
  by (auto simp: Api_getFlags_def after_getFlags_def api_flags_def split: option.split)

lemma preAppSpecialize_run:
  assumes "module_api s = Some api"
  defines "h \<equiv> after_setOption api (history s)"
  shows "run_state (preAppSpecialize E args) s =
     (if must_hide (api_flags api h) args
      then run_state (install_hooks E api) (s\<lparr>history := after_getFlags api h\<rparr>)
      else (Some (), s\<lparr>history := after_getFlags api h\<rparr>))"
  using assms
  by (simp add: preAppSpecialize_def install_hooks_def must_hide_def run_setOption run_getFlags Let_def)

text \<open>Armed exactly when both hooks were installed; then both pointers are saved.\<close>

lemma install_hooks_armed:
  assumes "run_state (install_hooks E api) s = (r, t)" and "commits_save api"
    and "callbackFunction s = Empty_callback" and "callbackFunction t \<noteq> Empty_callback"
  shows "old_unshare t \<noteq> None \<and> old_setresuid t \<noteq> None"
proof -
  obtain h1 u where u: "run_state (module_hookPLT E api runtime_lib ''unshare'' New_unshare
      (Some Slot_unshare)) s = (h1, u)" by fastforce
  obtain h2 v where v: "run_state (module_hookPLT E api runtime_lib ''setresuid'' New_setresuid
      (Some Slot_setresuid)) u = (h2, v)" by fastforce
  have cb: "callbackFunction u = callbackFunction s" "callbackFunction v = callbackFunction u"
    using keepsD [OF module_hookPLT_callback u] keepsD [OF module_hookPLT_callback v] by auto
  then have h1: "h1 = True" and h2: "h2 = True"
    using assms(1,3,4) u v by (auto simp: install_hooks_def split: if_splits)
  then have "slot_value Slot_unshare u \<noteq> None"
    using module_hookPLT_saves [OF assms(2) u [unfolded h1]] by simp
  then have "slot_value Slot_unshare v \<noteq> None" "slot_value Slot_setresuid v \<noteq> None"
    using module_hookPLT_saves [OF assms(2) v [unfolded h2]] by auto
  moreover obtain f w where w: "run_state (Api_connectCompanion api) v = (f, w)" by fastforce
  moreover have "slot_value sl w = slot_value sl v" for sl
    by (rule keepsD [OF _ w]) (auto intro: keeps_intros)
  moreover obtain x y where y: "run_state (if f \<noteq> no_fd then Api_exemptFd api f
      else State_Monad.return False) w = (x, y)" by fastforce
  moreover have "slot_value sl y = slot_value sl w" for sl
    by (rule keepsD [OF _ y]) (auto intro!: keeps_intros)
  moreover have "t = y\<lparr>callbackFunction := Hide_callback f\<rparr>"
    using assms(1) u v w y h1 h2 by (simp add: install_hooks_def)
  ultimately have "slot_value Slot_unshare t \<noteq> None" "slot_value Slot_setresuid t \<noteq> None"
    by simp_all
  then show ?thesis by (simp add: slot_value_def)
qed

section \<open>Properties\<close>

text \<open>
  C16: which processes are touched. Unless the process has no root grant, is on the denylist
  and runs as a user app, the handler sets its option, reads the flags and returns: nothing is
  registered, no companion is asked, and every part of the process but the history stays.
\<close>

theorem preAppSpecialize_skips:
  assumes "module_api s = Some api"
  defines "h \<equiv> after_setOption api (history s)"
  assumes "api_flags api h AND PROCESS_GRANTED_ROOT \<noteq> 0 \<or> api_flags api h AND PROCESS_ON_DENYLIST = 0
    \<or> \<not> isUserAppUID (uid args)"
  shows "run_state (preAppSpecialize E args) s = (Some (), s\<lparr>history := after_getFlags api h\<rparr>)"
  using assms(3) unfolding h_def
  by (subst preAppSpecialize_run [OF assms(1)]) (auto simp: must_hide_def)

definition app_args :: AppSpecializeArgs where
  "app_args = \<lparr>uid = 10123, gid = 10123, gids = 1, runtime_flags = 0, rlimits = 0, mount_external = 0,
     se_info = 2, nice_name = 3, instruction_set = 4, app_data_dir = 5, fds_to_ignore = None,
     is_child_zygote = None, is_top_app = None, pkg_data_info_list = None,
     whitelisted_data_info_list = None, mount_data_dirs = None, mount_storage_dirs = None\<rparr>"

theorem preAppSpecialize_skips_witness:
  "run_state (preAppSpecialize calm_env app_args) (fresh_process\<lparr>module_api := Some (calm_api 3)\<rparr>) =
     (Some (), fresh_process\<lparr>module_api := Some (calm_api 3),
        history := [Ev_setOption DLCLOSE_MODULE_LIBRARY, Ev_getFlags 3]\<rparr>)"
  by (subst preAppSpecialize_skips [where api = "calm_api 3"])
    (simp_all add: api_flags_def after_setOption_def after_getFlags_def calm_api_def
      PROCESS_GRANTED_ROOT_def)

text \<open>
  No call through a null pointer. When a commit saves the original functions as it
  documents, then after a specialization that armed the callback no sequence of hook calls
  crashes.
\<close>

theorem armed_hooks_do_not_crash:
  assumes "commits_save api" and "module_api s = Some api"
    and "callbackFunction s = Empty_callback"
    and "callbackFunction (snd (run_state (preAppSpecialize E args) s)) \<noteq> Empty_callback"
  shows "fst (run_state (run_hooks E calls) (snd (run_state (preAppSpecialize E args) s))) = Some ()"
proof -
  let ?s = "s\<lparr>history := after_getFlags api (after_setOption api (history s))\<rparr>"
  obtain r t where t: "run_state (preAppSpecialize E args) s = (r, t)" by fastforce
  then have "run_state (install_hooks E api) ?s = (r, t)"
    using preAppSpecialize_run [OF assms(2), of E args] assms(3,4) by (auto split: if_splits)
  then have "old_unshare t \<noteq> None \<and> old_setresuid t \<noteq> None"
    using assms(1,3,4) t by (intro install_hooks_armed [of E api ?s r t]) simp_all
  with t show ?thesis using run_hooks_some by simp
qed

definition app_process :: "api_table \<Rightarrow> proc" where
  "app_process api = fresh_process\<lparr>module_api := Some api, maps_cache := [runtime_map]\<rparr>"

lemma runtime_map_found [simp]: "ends_with (pathname runtime_map) ''/libandroid_runtime.so''"
  by (simp add: runtime_map_def suffix_to_prefix)

lemma app_uid [simp]: "isUserAppUID 10123" by code_simp

lemma app_armed:
  "callbackFunction (snd (run_state (preAppSpecialize calm_env app_args) (app_process (calm_api 2)))) =
     Hide_callback (Fd 9)"
  by (simp add: preAppSpecialize_run app_process_def must_hide_def api_flags_def calm_api_def
      PROCESS_GRANTED_ROOT_def PROCESS_ON_DENYLIST_def app_args_def install_hooks_def
      module_hookPLT_def hookPLTByName_def parseSelfMaps_def api_defs save_slot_def)

theorem armed_hooks_do_not_crash_witness:
  "fst (run_state (run_hooks calm_env [Call_setresuid 10123 10123 10123, Call_unshare CLONE_NEWNS])
     (snd (run_state (preAppSpecialize calm_env app_args) (app_process (calm_api 2))))) = Some ()"
proof (rule armed_hooks_do_not_crash)
  show "commits_save (calm_api 2)" by (simp add: commits_save_def calm_api_def)
  show "callbackFunction (snd (run_state (preAppSpecialize calm_env app_args) (app_process (calm_api 2))))
      \<noteq> Empty_callback"
    by (simp add: app_armed)
qed (simp_all add: app_process_def)

text \<open>
  C33: half of the hooks. When the second hook cannot be installed the handler returns with
  the callback empty and the first hook in place: a later request for a mount namespace is
  answered with success although no namespace was made and no call was passed on.
\<close>

theorem half_hooked_swallows_unshare:
  assumes "module_api s = Some api" and "callbackFunction s = Empty_callback"
    and "must_hide (api_flags api (after_setOption api (history s))) args"
    and "run_state (module_hookPLT E api runtime_lib ''unshare'' New_unshare (Some Slot_unshare))
      (s\<lparr>history := after_getFlags api (after_setOption api (history s))\<rparr>) = (True, u)"
    and "run_state (module_hookPLT E api runtime_lib ''setresuid'' New_setresuid (Some Slot_setresuid)) u =
      (False, v)"
  shows "run_state (preAppSpecialize E args) s = (Some (), v)
     \<and> run_state (new_unshare E CLONE_NEWNS) v = (Some 0, v)"
proof -
  have "callbackFunction v = Empty_callback"
    using keepsD [OF module_hookPLT_callback assms(4)] keepsD [OF module_hookPLT_callback assms(5)]
      assms(2) by simp
  then show ?thesis
    using assms(3-5)
    by (simp add: preAppSpecialize_run [OF assms(1)] install_hooks_def unshare_hook.hook_idle
        unshare_rest_def)
qed

text \<open>A framework that commits once.\<close>

definition one_commit_api :: api_table where
  "one_commit_api = (calm_api 2)\<lparr>tbl_pltHookCommit := Some (\<lambda>h.
     (Ev_pltHookCommit True \<notin> set h, \<lambda>sl. if sl = Slot_unshare then Some 4096 else None))\<rparr>"

theorem half_hooked_swallows_unshare_witness:
  "run_state (new_unshare calm_env CLONE_NEWNS)
       (snd (run_state (preAppSpecialize calm_env app_args) (app_process one_commit_api))) =
     (Some 0, snd (run_state (preAppSpecialize calm_env app_args) (app_process one_commit_api)))
   \<and> last (history (snd (run_state (preAppSpecialize calm_env app_args) (app_process one_commit_api)))) =
     Ev_pltHookCommit False"
proof -
  let ?s = "app_process one_commit_api"
  let ?h = "[Ev_setOption DLCLOSE_MODULE_LIBRARY, Ev_getFlags 2]"
  let ?hu = "?h @ [Ev_pltHookRegister 1880 1022 ''unshare'' New_unshare (Some Slot_unshare), Ev_pltHookCommit True]"
  let ?hv = "?hu @ [Ev_pltHookRegister 1880 1022 ''setresuid'' New_setresuid (Some Slot_setresuid),
    Ev_pltHookCommit False]"
  have api: "module_api ?s = Some one_commit_api" "callbackFunction ?s = Empty_callback"
    by (simp_all add: app_process_def)
  have hist: "after_setOption one_commit_api (history ?s) = [Ev_setOption DLCLOSE_MODULE_LIBRARY]"
    "api_flags one_commit_api [Ev_setOption DLCLOSE_MODULE_LIBRARY] = 2"
    "after_getFlags one_commit_api [Ev_setOption DLCLOSE_MODULE_LIBRARY] = ?h"
    by (simp_all add: after_setOption_def api_flags_def after_getFlags_def one_commit_api_def
        calm_api_def app_process_def)
  have hide: "must_hide (api_flags one_commit_api (after_setOption one_commit_api (history ?s))) app_args"
    by (simp add: hist must_hide_def PROCESS_GRANTED_ROOT_def PROCESS_ON_DENYLIST_def app_args_def)
  have u: "run_state (module_hookPLT calm_env one_commit_api runtime_lib ''unshare'' New_unshare (Some Slot_unshare))
      (?s\<lparr>history := after_getFlags one_commit_api (after_setOption one_commit_api (history ?s))\<rparr>) =
      (True, ?s\<lparr>history := ?hu, old_unshare := Some 4096\<rparr>)"
    unfolding hist
    by (simp add: module_hookPLT_def hookPLTByName_def parseSelfMaps_def api_defs save_slot_def
        one_commit_api_def calm_api_def app_process_def runtime_map_def suffix_to_prefix fresh_process_def)
  have v: "run_state (module_hookPLT calm_env one_commit_api runtime_lib ''setresuid'' New_setresuid (Some Slot_setresuid))
      (?s\<lparr>history := ?hu, old_unshare := Some 4096\<rparr>) =
      (False, ?s\<lparr>history := ?hv, old_unshare := Some 4096\<rparr>)"
    by (simp add: module_hookPLT_def hookPLTByName_def parseSelfMaps_def api_defs save_slot_def
        one_commit_api_def calm_api_def app_process_def runtime_map_def suffix_to_prefix fresh_process_def)
  from half_hooked_swallows_unshare [OF api hide u v] show ?thesis by simp
qed

end
