(* ===== verification/Lifecycle.thy ===== *)
theory Lifecycle
  imports Arming
begin

text \<open>
  The life of a process the module is loaded into, as a step relation: Zygisk loads the
  module, calls one of its specialization handlers, the code it specializes calls the hooks
  that are in the PLT by then in any order, and Zygisk calls the handler after the
  specialization. Invariants hold in every reachable state by rule induction.
\<close>

section \<open>What is in the PLT\<close>

text \<open>
  A hook is installed by a commit that succeeds after its registration; a commit that fails
  installs nothing.
\<close>

record plt =
  pending_hooks :: "hook_fn list"
  installed_hooks :: "hook_fn list"

fun plt_step :: "plt \<Rightarrow> event \<Rightarrow> plt" where
  "plt_step p (Ev_pltHookRegister dev ino symbol hook orig) = p\<lparr>pending_hooks := pending_hooks p @ [hook]\<rparr>"
| "plt_step p (Ev_pltHookCommit ok) =
     \<lparr>pending_hooks = [], installed_hooks = (if ok then installed_hooks p @ pending_hooks p else installed_hooks p)\<rparr>"
| "plt_step p _ = p"

definition plt_of :: "history \<Rightarrow> plt" where
  "plt_of h = foldl plt_step \<lparr>pending_hooks = [], installed_hooks = []\<rparr> h"

fun hook_slot :: "hook_fn \<Rightarrow> slot option" where
  "hook_slot New_unshare = Some Slot_unshare"
| "hook_slot New_setresuid = Some Slot_setresuid"
| "hook_slot (Saved p) = None"

fun plt_event :: "event \<Rightarrow> bool" where
  "plt_event (Ev_pltHookRegister dev ino symbol hook orig) = True"
| "plt_event (Ev_pltHookCommit ok) = True"
| "plt_event _ = False"

lemma plt_of_append [simp]: "plt_of (h @ es) = foldl plt_step (plt_of h) es"
  by (simp add: plt_of_def)

lemma plt_step_other: "\<not> plt_event e \<Longrightarrow> plt_step p e = p"
  by (cases e) simp_all

lemma plt_step_others: "list_all (\<lambda>e. \<not> plt_event e) es \<Longrightarrow> foldl plt_step p es = p"
  by (induction es) (simp_all add: plt_step_other)

section \<open>The step relation\<close>

datatype phase = Starting | Loaded | Specializing | Serving | Finished | Crashed

text \<open>
  The framework keeps the \<open>module_abi\<close> that was registered and calls its functions with its
  object.
\<close>

definition registered_abi :: "env \<Rightarrow> module_abi" where
  "registered_abi E = make_module_abi (ZygiskModule E)"

lemma dispatch:
  "vt_onLoad (ZygiskModule E) = onLoad"
  "api_version (registered_abi E) = 4"
  "abi_preAppSpecialize (registered_abi E) (abi_impl (registered_abi E)) args = preAppSpecialize E args"
  "abi_postAppSpecialize (registered_abi E) (abi_impl (registered_abi E)) args = postAppSpecialize E"
  "abi_preServerSpecialize (registered_abi E) (abi_impl (registered_abi E)) sargs = preServerSpecialize"
  "abi_postServerSpecialize (registered_abi E) (abi_impl (registered_abi E)) sargs = State_Monad.return (Some ())"
  by (simp_all add: registered_abi_def make_module_abi_def ZygiskModule_def ModuleBase_defaults_def
      ZYGISK_API_VERSION_def)

fun hook_installed :: "hook_call \<Rightarrow> proc \<Rightarrow> bool" where
  "hook_installed (Call_unshare flags) s \<longleftrightarrow> New_unshare \<in> set (installed_hooks (plt_of (history s)))"
| "hook_installed (Call_setresuid r e sv) s \<longleftrightarrow> New_setresuid \<in> set (installed_hooks (plt_of (history s)))"

inductive life_step :: "env \<Rightarrow> api_table \<Rightarrow> phase \<times> proc \<Rightarrow> phase \<times> proc \<Rightarrow> bool"
  for E :: env and api :: api_table where
  load: "run_state (zygisk_module_entry E api) s = ((), t) \<Longrightarrow> module_api t = Some api \<Longrightarrow>
    life_step E api (Starting, s) (Loaded, t)"
| server: "run_state (abi_preServerSpecialize (registered_abi E) (abi_impl (registered_abi E)) sargs) s = (Some (), t) \<Longrightarrow>
    life_step E api (Loaded, s) (Serving, t)"
| server_post: "run_state (abi_postServerSpecialize (registered_abi E) (abi_impl (registered_abi E)) sargs) s = (Some (), t) \<Longrightarrow>
    life_step E api (Serving, s) (Finished, t)"
| app: "run_state (abi_preAppSpecialize (registered_abi E) (abi_impl (registered_abi E)) args) s = (Some (), t) \<Longrightarrow>
    life_step E api (Loaded, s) (Specializing, t)"
| hook: "hook_installed c s \<Longrightarrow> run_state (run_hook E c) s = (Some ret, t) \<Longrightarrow>
    life_step E api (Specializing, s) (Specializing, t)"
| hook_crash: "hook_installed c s \<Longrightarrow> run_state (run_hook E c) s = (None, t) \<Longrightarrow>
    life_step E api (Specializing, s) (Crashed, t)"
| post: "run_state (abi_postAppSpecialize (registered_abi E) (abi_impl (registered_abi E)) args) s = (Some (), t) \<Longrightarrow>
    life_step E api (Specializing, s) (Finished, t)"
| post_crash: "run_state (abi_postAppSpecialize (registered_abi E) (abi_impl (registered_abi E)) args) s = (None, t) \<Longrightarrow>
    life_step E api (Specializing, s) (Crashed, t)"

inductive_cases life_step_any: "life_step E api (ph, s) (ph', t)"

lemmas life_stepE = life_step_any [unfolded dispatch run_state_return prod.inject]

definition reachable :: "env \<Rightarrow> api_table \<Rightarrow> phase \<times> proc \<Rightarrow> bool" where
  "reachable E api = (life_step E api)\<^sup>*\<^sup>* (Starting, fresh_process)"

section \<open>Saved pointers behind installed hooks\<close>

definition plt_ok :: "proc \<Rightarrow> bool" where
  "plt_ok s \<longleftrightarrow>
     (\<forall>fn \<in> set (pending_hooks (plt_of (history s))). \<forall>sl. hook_slot fn = Some sl \<longrightarrow> sl \<in> set (plt_pending s))
     \<and> (\<forall>fn \<in> set (installed_hooks (plt_of (history s))). \<forall>sl. hook_slot fn = Some sl \<longrightarrow> slot_value sl s \<noteq> None)"

abbreviation slots :: "proc \<Rightarrow> slot list \<times> u64 option \<times> u64 option" where
  "slots s \<equiv> (plt_pending s, old_unshare s, old_setresuid s)"

lemma slots_value: "slots t = slots s \<Longrightarrow> slot_value sl t = slot_value sl s"
  by (cases sl) (simp_all add: slot_value_def)

lemma plt_ok_same:
  assumes "emits (\<lambda>e. \<not> plt_event e) m" and "keeps slots m" and "plt_ok s"
  shows "plt_ok (snd (run_state m s))"
proof -
  obtain a t where m: "run_state m s = (a, t)" by fastforce
  obtain es where "history t = history s @ es" and "list_all (\<lambda>e. \<not> plt_event e) es"
    using assms(1) m by (rule emitsD)
  then have "plt_of (history t) = plt_of (history s)" by (simp add: plt_step_others)
  moreover have "slots t = slots s" using assms(2) m by (rule keepsD)
  ultimately show ?thesis
    using assms(3) slots_value [of t s] m by (simp add: plt_ok_def)
qed

lemma plt_ok_register:
  assumes "plt_ok s" and "hook_slot hook = orig"
  shows "plt_ok (snd (run_state (Api_pltHookRegister api dev ino symbol hook orig) s))"
  using assms
  by (auto simp: Api_pltHookRegister_def plt_ok_def split: option.splits)

lemma slot_value_fold_stays:
  "slot_value sl s \<noteq> None \<Longrightarrow> slot_value sl (fold (save_slot saved) sls s) \<noteq> None"
proof (induction sls arbitrary: s)
  case (Cons a sls)
  have "slot_value sl (save_slot saved a s) \<noteq> None"
    using Cons.prems by (auto simp: slot_value_save)
  then show ?case using Cons.IH by simp
qed simp

lemma plt_ok_commit:
  assumes "commits_save api" and "plt_ok s"
  shows "plt_ok (snd (run_state (Api_pltHookCommit api) s))"
proof (cases "tbl_pltHookCommit api")
  case None
  with assms(2) show ?thesis by (simp add: Api_pltHookCommit_def)
next
  case (Some f)
  let ?ok = "fst (f (history s))" and ?saved = "snd (f (history s))"
  let ?t = "fold (save_slot ?saved) (plt_pending s) s"
  have stays: "slot_value sl s \<noteq> None \<Longrightarrow> slot_value sl ?t \<noteq> None" for sl
    by (rule slot_value_fold_stays)
  have saves: "?ok \<Longrightarrow> sl \<in> set (plt_pending s) \<Longrightarrow> slot_value sl ?t \<noteq> None" for sl
    using assms(1) Some by (intro slot_value_fold) (auto simp: commits_save_def)
  show ?thesis
    using assms(2) Some stays saves
    by (fastforce simp: Api_pltHookCommit_def plt_ok_def case_prod_beta simp del: not_None_eq)
qed

lemma preserves_plt_ok:
  assumes "emits (\<lambda>e. \<not> plt_event e) m" and "keeps slots m"
  shows "preserves plt_ok m"
  using plt_ok_same [OF assms] by (simp add: preserves_def)

lemma emits_pltHookCommit [emits_intros]:
  "(\<And>ok. P (Ev_pltHookCommit ok)) \<Longrightarrow> emits P (Api_pltHookCommit api)"
  by (rule emitsI) (auto simp: Api_pltHookCommit_def case_prod_beta split: option.split)

lemma emits_module_hookPLT [emits_intros]:
  assumes "\<And>ok. P (Ev_open_file ''/proc/self/maps'' ok)"
    and "\<And>dev ino. P (Ev_pltHookRegister dev ino symbol hook orig)"
    and "\<And>ok. P (Ev_pltHookCommit ok)"
  shows "emits P (module_hookPLT E api lib symbol hook orig)"
  using assms by (auto simp: module_hookPLT_def intro!: emits_intros)

lemma plt_ok_module_hookPLT [preserves_intros]:
  assumes "commits_save api" and "hook_slot hook = orig"
  shows "preserves plt_ok (module_hookPLT E api lib symbol hook orig)"
proof -
  have "preserves plt_ok (parseSelfMaps E True)"
    by (rule preserves_plt_ok) (auto intro!: emits_intros keeps_intros)
  moreover have "preserves plt_ok (Api_pltHookRegister api dev ino symbol hook orig)" for dev ino
    using plt_ok_register assms(2) by (simp add: preserves_def)
  moreover have "preserves plt_ok (Api_pltHookCommit api)"
    using plt_ok_commit assms(1) by (simp add: preserves_def)
  ultimately show ?thesis
    by (auto simp: module_hookPLT_def hookPLTByName_def register_first_map_find intro!: preserves_intros)
qed

lemma plt_ok_query [preserves_intros]:
  "preserves plt_ok (Api_setOption api opt)" "preserves plt_ok (Api_getFlags api)"
  "preserves plt_ok (Api_connectCompanion api)" "preserves plt_ok (Api_exemptFd api f)"
  by (auto intro!: preserves_plt_ok emits_intros keeps_intros)

lemma emits_run_callback:
  assumes "\<And>e. \<not> plt_event e \<Longrightarrow> P e"
  shows "emits P (run_callback E)"
proof -
  have "emits (\<lambda>e. \<not> plt_event e) (hide_callback E f)" for f
    by (auto simp: hide_callback_def new_mount_ns_def call_old_unshare_def sys_mount_def intro!: emits_intros)
  then have "emits (\<lambda>e. \<not> plt_event e) (run_callback E)"
    by (auto simp: run_callback_def intro!: emits_intros split: callback.split)
  then show ?thesis by (rule emits_mono) (rule assms)
qed

lemma keeps_slots_run_callback: "keeps slots (run_callback E)"
proof -
  have "keeps slots (hide_callback E f)" for f
    unfolding hide_callback_body by (auto intro!: keeps_intros keeps_hide_body)
  then show ?thesis
    by (auto simp: run_callback_def intro!: keeps_intros split: callback.split)
qed

lemma emits_run_hook_plt: "emits (\<lambda>e. \<not> plt_event e) (run_hook E c)"
proof -
  have rest: "emits (\<lambda>e. \<not> plt_event e) (unshare_rest E fl)"
    "emits (\<lambda>e. \<not> plt_event e) (call_old_setresuid E ids)" for fl ids
    by (auto simp: unshare_rest_def call_old_unshare_def call_old_setresuid_def Let_def
        intro!: emits_intros split: prod.split)
  have cb: "emits (\<lambda>e. \<not> plt_event e) (run_callback E)"
    by (rule emits_run_callback)
  show ?thesis
    by (cases c) (auto simp: new_unshare_def new_setresuid_def intro!: emits_intros rest cb)
qed

lemma keeps_slots_run_hook: "keeps slots (run_hook E c)"
  by (cases c) (auto simp: new_unshare_def new_setresuid_def intro!: keeps_intros keeps_slots_run_callback)

lemma plt_ok_run_hook: "preserves plt_ok (run_hook E c)"
  by (rule preserves_plt_ok [OF emits_run_hook_plt keeps_slots_run_hook])

lemma plt_ok_preAppSpecialize:
  assumes "commits_save api" and "module_api s = Some api" and "plt_ok s"
  shows "plt_ok (snd (run_state (preAppSpecialize E args) s))"
proof -
  have "slot_value sl (callbackFunction_update g s) = slot_value sl s" for sl g s
    by (rule slots_value) simp
  then have modify: "preserves plt_ok (modify (callbackFunction_update g))" for g
    by (intro preserves_modify) (simp add: plt_ok_def)
  have install: "preserves plt_ok (install_hooks E api)"
    using assms(1) by (auto simp: install_hooks_def intro!: preserves_intros modify)
  have "plt_ok (s\<lparr>history := after_getFlags api (after_setOption api (history s))\<rparr>)"
    using assms(3) by (simp add: plt_ok_def after_getFlags_def after_setOption_def)
  then show ?thesis
    using install by (simp add: preAppSpecialize_run [OF assms(2)] preserves_def)
qed

definition restore_hooks :: "env \<Rightarrow> api_table \<Rightarrow> (proc, unit option) state" where
  "restore_hooks E api = do {
     p \<leftarrow> gets old_unshare;
     (case p of
        None \<Rightarrow> State_Monad.return ()
      | Some f \<Rightarrow> do {
          unhooked \<leftarrow> module_hookPLT E api runtime_lib ''unshare'' (Saved f) None;
          State_Monad.return () });
     p \<leftarrow> gets old_setresuid;
     (case p of
        None \<Rightarrow> State_Monad.return (Some ())
      | Some f \<Rightarrow> do {
          unhooked \<leftarrow> module_hookPLT E api runtime_lib ''setresuid'' (Saved f) None;
          State_Monad.return (Some ()) }) }"

lemma postAppSpecialize_run:
  assumes "module_api s = Some api"
  shows "run_state (postAppSpecialize E) s = run_state (restore_hooks E api) s"
  using assms
  by (cases "old_unshare s")
    (simp_all add: postAppSpecialize_def restore_hooks_def case_prod_beta)

lemma restore_hooks_some: "fst (run_state (restore_hooks E api) s) = Some ()"
  by (auto simp: restore_hooks_def case_prod_beta split: option.split)

lemma plt_ok_restore_hooks: "commits_save api \<Longrightarrow> preserves plt_ok (restore_hooks E api)"
  by (auto simp: restore_hooks_def intro!: preserves_intros)

section \<open>Mounts are changed in a private namespace only\<close>

text \<open>
  What a history has done about the mount namespace: 0 nothing, 1 a new namespace, 2 its
  root was made a slave. Mounts may be removed in the last stage only; in the first stage of a
  namespace of one's own only the propagation may be changed, and nothing before.
\<close>

fun ns_step :: "nat \<Rightarrow> event \<Rightarrow> nat" where
  "ns_step st (Ev_unshare a flags r) = (if flags AND CLONE_NEWNS \<noteq> 0 \<and> r \<noteq> - 1 then max st 1 else st)"
| "ns_step st (Ev_mount src tgt ty flags opts r) =
     (if st = 1 \<and> tgt = ''/'' \<and> flags = MS_SLAVE OR MS_REC \<and> r \<noteq> - 1 then 2 else st)"
| "ns_step st _ = st"

fun stays_inside :: "nat \<Rightarrow> event \<Rightarrow> bool" where
  "stays_inside st (Ev_umount2 p flags r) \<longleftrightarrow> st = 2"
| "stays_inside st (Ev_mount src tgt ty flags opts r) \<longleftrightarrow> st = 2 \<or> st = 1 \<and> flags = MS_SLAVE OR MS_REC"
| "stays_inside st _ \<longleftrightarrow> True"

fun umounts_private :: "nat \<Rightarrow> history \<Rightarrow> bool" where
  "umounts_private st [] = True"
| "umounts_private st (e # h) = (stays_inside st e \<and> umounts_private (ns_step st e) h)"

definition ns_stage :: "history \<Rightarrow> nat" where
  "ns_stage h = foldl ns_step 0 h"

lemma umounts_private_append [simp]:
  "umounts_private st (h @ h') \<longleftrightarrow> umounts_private st h \<and> umounts_private (foldl ns_step st h) h'"
  by (induction h arbitrary: st) simp_all

abbreviation no_mount_change :: "event \<Rightarrow> bool" where
  "no_mount_change e \<equiv> umount_call e = None \<and> mount_call e = None"

lemma stays_inside_other: "no_mount_change e \<Longrightarrow> stays_inside st e"
  by (cases e) simp_all

lemma umounts_private_none: "list_all no_mount_change es \<Longrightarrow> umounts_private st es"
  by (induction es arbitrary: st) (simp_all add: stays_inside_other)

lemma ns_step_2 [simp]: "ns_step 2 e = 2"
  by (cases e) simp_all

lemma stays_inside_2: "stays_inside 2 e"
  by (cases e) simp_all

lemma umounts_private_2: "umounts_private 2 es"
  by (induction es) (simp_all add: stays_inside_2)

lemma ns_step_le: "st \<le> 2 \<Longrightarrow> ns_step st e \<le> 2"
  by (cases e) simp_all

lemma ns_stage_le: "st \<le> 2 \<Longrightarrow> foldl ns_step st h \<le> 2"
  by (induction h arbitrary: st) (simp_all add: ns_step_le)

abbreviation removes_privately :: "proc \<Rightarrow> bool" where
  "removes_privately s \<equiv> umounts_private 0 (history s)"

lemma private_no_change: "emits no_mount_change m \<Longrightarrow> preserves removes_privately m"
  unfolding preserves_def
proof (intro allI impI)
  fix s
  assume m: "emits no_mount_change m" and s: "removes_privately s"
  obtain a t where "run_state m s = (a, t)" by fastforce
  with m s show "removes_privately (snd (run_state m s))"
    by (auto elim!: emitsD simp: umounts_private_none)
qed

text \<open>A namespace that was made is private.\<close>

lemma new_mount_ns_stage:
  assumes "run_state (new_mount_ns E) s = (Some True, t)"
  shows "foldl ns_step 0 (history t) = 2"
proof -
  have "(0 :: nat) \<le> 2" by simp
  from ns_stage_le [OF this, of "history s"] assms show ?thesis
    by (auto simp: new_mount_ns_def call_old_unshare_def run_simps CLONE_NEWNS_def
        split: option.splits if_splits)
qed

lemma private_after_ns:
  assumes "foldl ns_step 0 (history s) = 2" and "removes_privately s" and "emits (\<lambda>e. True) m"
  shows "removes_privately (snd (run_state m s))"
proof -
  obtain a t where m: "run_state m s = (a, t)" by fastforce
  obtain es where "history t = history s @ es" using assms(3) m by (rule emitsD)
  with assms(1,2) m show ?thesis by (simp add: umounts_private_2)
qed

lemma private_new_mount_ns: "preserves removes_privately (new_mount_ns E)"
  unfolding preserves_def
proof (intro allI impI)
  fix s
  assume "removes_privately s"
  moreover have "foldl ns_step 0 (history s) \<le> 2" by (rule ns_stage_le) simp
  then have "foldl ns_step 0 (history s) \<in> {0, 1, 2}" by auto
  ultimately show "removes_privately (snd (run_state (new_mount_ns E) s))"
    by (auto simp: new_mount_ns_def call_old_unshare_def run_simps CLONE_NEWNS_def split: option.split)
qed

lemma private_hide_callback: "preserves removes_privately (hide_callback E f)"
  unfolding preserves_def
proof (intro allI impI)
  fix s
  assume s: "removes_privately s"
  let ?s = "s\<lparr>callbackFunction := Empty_callback\<rparr>"
  obtain srr t where c: "run_state (ScopedRegularReopener E) ?s = (srr, t)" by fastforce
  obtain ns u where n: "run_state (new_mount_ns E) t = (ns, u)" by fastforce
  have "emits no_mount_change (ScopedRegularReopener E)" by (auto intro!: emits_intros)
  then have t: "removes_privately t"
    using c s by (intro preservesD [OF private_no_change c]) simp_all
  then have u: "removes_privately u"
    by (rule preservesD [OF private_new_mount_ns n])
  have "removes_privately (snd (run_state (hide_tail E f srr ns) u))"
  proof (cases "ns = Some True")
    case True
    then have "foldl ns_step 0 (history u) = 2" using n new_mount_ns_stage by simp
    then show ?thesis using u
      by (rule private_after_ns) (auto simp: hide_tail_def intro!: emits_intros)
  next
    case False
    then have "emits no_mount_change (hide_tail E f srr ns)"
      by (auto simp: hide_tail_def intro!: emits_intros split: option.split)
    then show ?thesis using private_no_change [of "hide_tail E f srr ns"] u by (simp add: preserves_def)
  qed
  then show "removes_privately (snd (run_state (hide_callback E f) s))"
    using c n by (simp add: hide_callback_body hide_body_def)
qed

lemma private_run_hook: "preserves removes_privately (run_hook E c)"
proof -
  have cb: "preserves removes_privately (run_callback E)"
    by (auto simp: run_callback_def intro!: preserves_intros private_hide_callback split: callback.split)
  have rest: "preserves removes_privately (unshare_rest E fl)"
    "preserves removes_privately (call_old_setresuid E ids)" for fl ids
    by (auto simp: unshare_rest_def call_old_unshare_def call_old_setresuid_def Let_def
        intro!: private_no_change emits_intros split: prod.split)
  show ?thesis
    by (cases c) (auto simp: new_unshare_def new_setresuid_def intro!: preserves_intros cb rest)
qed

text \<open>The handlers themselves make no call but those of the API.\<close>

lemma emits_preAppSpecialize:
  assumes "\<And>e. api_event e \<Longrightarrow> P e"
  shows "emits P (preAppSpecialize E args)"
  by (auto simp: preAppSpecialize_def Let_def intro!: emits_intros assms)

lemma emits_postAppSpecialize:
  assumes "\<And>e. api_event e \<Longrightarrow> P e"
  shows "emits P (postAppSpecialize E)"
  by (auto simp: postAppSpecialize_def intro!: emits_intros assms)

lemma emits_preServerSpecialize:
  assumes "\<And>e. api_event e \<Longrightarrow> P e"
  shows "emits P preServerSpecialize"
  by (auto simp: preServerSpecialize_def intro!: emits_intros assms)

lemma zygisk_module_entry_onLoad:
  "zygisk_module_entry E table = do {
     ok \<leftarrow> call (tbl_registerModule table) Ev_registerModule;
     if \<not> ok then State_Monad.return () else onLoad table }"
  by (simp only: zygisk_module_entry_def entry_impl_def dispatch)

lemma emits_entry: "(\<And>ok. P (Ev_registerModule ok)) \<Longrightarrow> emits P (zygisk_module_entry E table)"
  by (auto simp: zygisk_module_entry_onLoad onLoad_def intro!: emits_intros)

lemma api_event_harmless:
  "api_event e \<Longrightarrow> no_mount_change e" "api_event e \<Longrightarrow> \<not> unshares_mounts e"
  by (cases e; simp)+

section \<open>Reachable states\<close>

lemma reachable_induct [consumes 1, case_names start step]:
  assumes "reachable E api (ph, s)" and "I Starting fresh_process"
    and "\<And>ph s ph' t. I ph s \<Longrightarrow> life_step E api (ph, s) (ph', t) \<Longrightarrow> I ph' t"
  shows "I ph s"
proof -
  have "(life_step E api)\<^sup>*\<^sup>* (Starting, fresh_process) ps \<Longrightarrow> I (fst ps) (snd ps)" for ps
    by (induction rule: rtranclp_induct) (use assms(2,3) in \<open>auto simp: split_paired_all\<close>)
  from this [of "(ph, s)"] assms(1) show ?thesis by (simp add: reachable_def)
qed

lemma reachable_private: "reachable E api (ph, s) \<Longrightarrow> removes_privately s"
proof (induction rule: reachable_induct)
  case start
  then show ?case by simp
next
  case (step ph s ph' t)
  have api: "emits no_mount_change (zygisk_module_entry E api)" "emits no_mount_change preServerSpecialize"
    "emits no_mount_change (preAppSpecialize E args)" "emits no_mount_change (postAppSpecialize E)" for args
    by (simp_all add: emits_entry emits_preServerSpecialize emits_preAppSpecialize
        emits_postAppSpecialize api_event_harmless)
  note kept = preservesD [OF private_no_change [OF api(1)]] preservesD [OF private_no_change [OF api(2)]]
    preservesD [OF private_no_change [OF api(3)]] preservesD [OF private_no_change [OF api(4)]]
    preservesD [OF private_run_hook]
  from step(2,1) show ?case by (cases rule: life_stepE) (blast intro: kept)+
qed

text \<open>At most one new mount namespace, and none before the callback is armed.\<close>

definition namespace_budget :: "phase \<Rightarrow> proc \<Rightarrow> bool" where
  "namespace_budget ph s \<longleftrightarrow>
     mount_unshares (history s) + (if callbackFunction s = Empty_callback then 0 else 1) \<le> 1
     \<and> (ph \<in> {Starting, Loaded} \<longrightarrow>
          callbackFunction s = Empty_callback \<and> mount_unshares (history s) = 0)"

lemma api_no_unshare:
  "no_mount_unshare (zygisk_module_entry E api)" "no_mount_unshare preServerSpecialize"
  "no_mount_unshare (preAppSpecialize E args)" "no_mount_unshare (postAppSpecialize E)"
  by (simp_all add: emits_entry emits_preServerSpecialize emits_preAppSpecialize
      emits_postAppSpecialize api_event_harmless)

lemma keeps_callback_api:
  "keeps callbackFunction (zygisk_module_entry E api)" "keeps callbackFunction preServerSpecialize"
  by (auto simp: zygisk_module_entry_onLoad onLoad_def preServerSpecialize_def intro!: keeps_intros)

lemma keeps_callback_post: "keeps callbackFunction (postAppSpecialize E)"
proof -
  have "keeps callbackFunction (module_hookPLT E api lib symbol h orig)" for api lib symbol h orig
    using module_hookPLT_callback [of E api lib symbol h orig] by (simp add: keeps_def)
  then show ?thesis by (auto simp: postAppSpecialize_def intro!: keeps_intros)
qed

lemma run_hook_unshares:
  assumes "run_state (run_hook E c) s = (r, t)"
  shows "mount_unshares (history t) \<le> mount_unshares (history s)
      + (if callbackFunction s = Empty_callback then 0 else 1)
    \<and> callbackFunction t = Empty_callback"
proof -
  have run: "history (snd (run_state (run_hooks E [c]) s)) = history t"
    using assms by (cases r) simp_all
  have "callbackFunction s = Empty_callback \<Longrightarrow> mount_unshares (history t) = mount_unshares (history s)"
  proof -
    assume "callbackFunction s = Empty_callback"
    then obtain es where "history t = history s @ es" and "list_all passed_on es"
      using assms by (rule run_hook_idle)
    moreover have "mount_unshares es = 0"
      using \<open>list_all passed_on es\<close>
      by (auto intro!: mount_unshares_none simp: list_all_iff passed_on_no_unshare)
    ultimately show ?thesis by simp
  qed
  moreover have "callbackFunction t = Empty_callback"
    using run_hook_disarms [of E c s] assms by simp
  ultimately show ?thesis using run_hooks_unshares [of E "[c]" s] run by simp
qed

lemma reachable_budget: "reachable E api (ph, s) \<Longrightarrow> namespace_budget ph s"
proof (induction rule: reachable_induct)
  case start
  then show ?case by (simp add: namespace_budget_def mount_unshares_def)
next
  case (step ph s ph' t)
  note same = no_mount_unshare_same [OF api_no_unshare(1)] no_mount_unshare_same [OF api_no_unshare(2)]
    no_mount_unshare_same [OF api_no_unshare(3)] no_mount_unshare_same [OF api_no_unshare(4)]
  note kept = keepsD [OF keeps_callback_api(1)] keepsD [OF keeps_callback_api(2)] keepsD [OF keeps_callback_post]
  from step(2,1) show ?case
    by (cases rule: life_stepE)
      (auto simp: namespace_budget_def split: if_splits dest: same kept run_hook_unshares)
qed

text \<open>No crash, when commits save what they document.\<close>

definition no_crash :: "api_table \<Rightarrow> phase \<Rightarrow> proc \<Rightarrow> bool" where
  "no_crash api ph s \<longleftrightarrow>
     ph \<noteq> Crashed \<and> plt_ok s \<and> (ph = Starting \<or> module_api s = Some api)
     \<and> (ph = Finished \<or> callbackFunction s = Empty_callback
        \<or> old_unshare s \<noteq> None \<and> old_setresuid s \<noteq> None)
     \<and> (ph \<in> {Starting, Loaded} \<longrightarrow> callbackFunction s = Empty_callback)"

lemma installed_hook_some:
  assumes "plt_ok s" and "hook_installed c s"
    and "callbackFunction s = Empty_callback \<or> old_unshare s \<noteq> None \<and> old_setresuid s \<noteq> None"
  shows "fst (run_state (run_hook E c) s) \<noteq> None"
proof (cases "callbackFunction s = Empty_callback")
  case False
  with assms(3) show ?thesis by (intro run_hook_some) simp_all
next
  case True
  have saved: "fn \<in> set (installed_hooks (plt_of (history s))) \<Longrightarrow> hook_slot fn = Some sl \<Longrightarrow>
      slot_value sl s \<noteq> None" for fn sl
    using assms(1) by (simp add: plt_ok_def)
  show ?thesis
  proof (cases c)
    case (Call_unshare flags)
    then have "old_unshare s \<noteq> None"
      using saved [of New_unshare Slot_unshare] assms(2) by (simp add: slot_value_def)
    with True Call_unshare show ?thesis
      by (auto simp: unshare_hook.hook_idle unshare_rest_def call_old_unshare_def Let_def)
  next
    case (Call_setresuid r e sv)
    then have "old_setresuid s \<noteq> None"
      using saved [of New_setresuid Slot_setresuid] assms(2) by (simp add: slot_value_def)
    with True Call_setresuid show ?thesis
      by (auto simp: setresuid_hook.hook_idle call_old_setresuid_def)
  qed
qed

lemma keeps_module_api:
  "keeps module_api preServerSpecialize" "keeps module_api (preAppSpecialize E args)"
  "keeps module_api (run_hook E c)" "keeps module_api (postAppSpecialize E)"
proof -
  have hook: "keeps module_api (module_hookPLT E api lib symbol h orig)" for api lib symbol h orig
    using module_hookPLT_callback [of E api lib symbol h orig] by (simp add: keeps_def)
  show "keeps module_api preServerSpecialize" "keeps module_api (preAppSpecialize E args)"
    "keeps module_api (postAppSpecialize E)"
    by (auto simp: preServerSpecialize_def preAppSpecialize_def postAppSpecialize_def Let_def
        intro!: keeps_intros hook)
  show "keeps module_api (run_hook E c)"
    using run_hook_statics [of E c] by (simp add: keeps_def statics_eq)
qed

lemma preAppSpecialize_armed:
  assumes "run_state (preAppSpecialize E args) s = (r, t)" and "commits_save api"
    and "module_api s = Some api" and "callbackFunction s = Empty_callback"
  shows "callbackFunction t = Empty_callback \<or> old_unshare t \<noteq> None \<and> old_setresuid t \<noteq> None"
proof -
  let ?s = "s\<lparr>history := after_getFlags api (after_setOption api (history s))\<rparr>"
  have "t = ?s \<or> run_state (install_hooks E api) ?s = (r, t)"
    using assms(1) preAppSpecialize_run [OF assms(3), of E args] by (auto split: if_splits)
  then show ?thesis
    using install_hooks_armed [of E api ?s r t] assms(2,4) by auto
qed

lemma plt_ok_simple:
  "preserves plt_ok (zygisk_module_entry E api)" "preserves plt_ok preServerSpecialize"
  by (auto simp: zygisk_module_entry_onLoad onLoad_def preServerSpecialize_def
      intro!: preserves_plt_ok emits_intros keeps_intros)

lemma no_crash_step:
  assumes "commits_save api" and "no_crash api ph s" and "life_step E api (ph, s) (ph', t)"
  shows "no_crash api ph' t"
  using assms(3)
proof cases
  case load
  then show ?thesis
    using assms(2) preservesD [OF plt_ok_simple(1)] keepsD [OF keeps_callback_api(1)]
    by (simp add: no_crash_def)
next
  case server
  then show ?thesis
    using assms(2) preservesD [OF plt_ok_simple(2)] keepsD [OF keeps_module_api(1)]
      keepsD [OF keeps_callback_api(2)]
    by (simp add: no_crash_def dispatch)
next
  case server_post
  then show ?thesis using assms(2) by (simp add: no_crash_def dispatch)
next
  case (app args)
  then have "module_api s = Some api" "callbackFunction s = Empty_callback" "plt_ok s"
    using assms(2) by (simp_all add: no_crash_def)
  then show ?thesis
    using app plt_ok_preAppSpecialize [OF assms(1), of s E args] keepsD [OF keeps_module_api(2)]
      preAppSpecialize_armed [of E args s _ t, OF _ assms(1)]
    by (simp add: no_crash_def dispatch)
next
  case (hook c ret)
  then show ?thesis
    using assms(2) preservesD [OF plt_ok_run_hook] keepsD [OF keeps_module_api(3)] run_hook_unshares
    by (simp add: no_crash_def)
next
  case (hook_crash c)
  then show ?thesis
    using assms(2) installed_hook_some [of s c E] by (simp add: no_crash_def)
next
  case post
  then have "module_api s = Some api" "plt_ok s" using assms(2) by (simp_all add: no_crash_def)
  then show ?thesis
    using post preservesD [OF plt_ok_restore_hooks [OF assms(1)]] keepsD [OF keeps_module_api(4) post(3) [unfolded dispatch]]
    by (simp add: no_crash_def postAppSpecialize_run dispatch)
next
  case post_crash
  then have "module_api s = Some api" using assms(2) by (simp add: no_crash_def)
  then show ?thesis
    using post_crash restore_hooks_some [of E api s] by (simp add: postAppSpecialize_run dispatch)
qed

lemma reachable_no_crash:
  assumes "commits_save api" and "reachable E api (ph, s)"
  shows "no_crash api ph s"
  using assms(2)
proof (induction rule: reachable_induct)
  case start
  have "plt_of [] = \<lparr>pending_hooks = [], installed_hooks = []\<rparr>" by (simp add: plt_of_def)
  then show ?case by (simp add: no_crash_def plt_ok_def)
next
  case (step ph s ph' t)
  with assms(1) show ?case by (blast intro: no_crash_step)
qed

section \<open>The table of Zygote\<close>

text \<open>
  What the kernel guarantees of the mount table of the namespace a process was started in: the
  calls of the process change it only while they are made in that namespace, or while what
  they do is still propagated to it.
\<close>

definition isolates :: "(history \<Rightarrow> 't) \<Rightarrow> bool" where
  "isolates table \<longleftrightarrow> (\<forall>h e. stays_inside (ns_stage h) e \<longrightarrow> table (h @ [e]) = table h)"

lemma isolated_history:
  assumes "isolates table" and "umounts_private 0 h"
  shows "table h = table []"
  using assms(2)
proof (induction h rule: rev_induct)
  case (snoc e h)
  then have "stays_inside (ns_stage h) e" by (simp add: ns_stage_def)
  with assms(1) have "table (h @ [e]) = table h" by (simp add: isolates_def)
  with snoc show ?case by simp
qed simp

section \<open>A life\<close>

text \<open>
  A device on which the module hides two mounts, for the witnesses: the maps and the mounts of
  the samples, and a companion that does not answer 1.
\<close>

definition device_env :: env where
  "device_env = calm_env\<lparr>env_file := (\<lambda>h path.
     if path = ''/proc/self/mountinfo'' then Some (render_mountinfo sample_mounts)
     else if path = ''/proc/self/maps'' then Some (render_maps sample_maps) else None)\<rparr>"

definition device_maps :: "u64 map_entry list" where
  "device_maps = map (map_line_entry (env_makedev calm_env)) sample_maps"

lemma device_contents:
  "mountinfo_contents device_env h = magisk_table" "maps_contents device_env h = device_maps"
  "env_file device_env h ''/proc/self/maps'' \<noteq> None"
  by (simp_all add: mountinfo_contents_def maps_contents_def device_env_def magisk_table_def device_maps_def
      parse_render_mountinfo [OF sample_mounts_wf] parse_render_maps [OF sample_maps_wf] sample_maps_fit calm_env_def)

lemma find_runtime:
  "find (\<lambda>m. ends_with (pathname m) ''/libandroid_runtime.so'') device_maps = Some (device_maps ! 2)"
  by (simp add: device_maps_def sample_maps_def map_line_entry_def make_map_entry_def suffix_to_prefix)

lemma device_maps_some: "device_maps \<noteq> []"
  by (simp add: device_maps_def sample_maps_def)

definition loaded_state :: proc where
  "loaded_state = fresh_process\<lparr>history := [Ev_registerModule True], module_api := Some (calm_api 2)\<rparr>"

lemma run_load: "run_state (zygisk_module_entry E (calm_api 2)) fresh_process = ((), loaded_state)"
  by (simp add: zygisk_module_entry_onLoad onLoad_def loaded_state_def calm_api_def)

definition armed_state :: proc where
  "armed_state = snd (run_state (preAppSpecialize device_env app_args) loaded_state)"

lemma hook_run:
  assumes "maps_cache s = [] \<or> maps_cache s = device_maps" and "plt_pending s = []"
  shows "run_state (module_hookPLT device_env (calm_api 2) runtime_lib symbol h (Some sl)) s =
    (True, save_slot (\<lambda>sl. Some 4096) sl (s\<lparr>maps_cache := device_maps, history := history s
       @ (if maps_cache s = [] then [Ev_open_file ''/proc/self/maps'' True] else [])
       @ [Ev_pltHookRegister (map_device (device_maps ! 2)) (inode (device_maps ! 2)) symbol h (Some sl),
          Ev_pltHookCommit True]\<rparr>))"
  using assms
  by (cases sl) (auto simp: module_hookPLT_def hookPLTByName_def run_parseSelfMaps register_first_map_find
      device_contents find_runtime device_maps_some api_defs calm_api_def save_slot_def)

lemma run_arm:
  "run_state (preAppSpecialize device_env app_args) loaded_state = (Some (), armed_state)"
  "callbackFunction armed_state = Hide_callback (Fd 9)" "old_unshare armed_state = Some 4096"
  "old_setresuid armed_state = Some 4096" "umounts (history armed_state) = []"
  "New_setresuid \<in> set (installed_hooks (plt_of (history armed_state)))"
  unfolding armed_state_def
  by (simp_all add: preAppSpecialize_run loaded_state_def must_hide_def api_flags_def after_setOption_def
      after_getFlags_def PROCESS_GRANTED_ROOT_def PROCESS_ON_DENYLIST_def app_args_def install_hooks_def
      hook_run save_slot_def umounts_Cons plt_of_def Api_connectCompanion_def Api_exemptFd_def)

definition hidden_state :: proc where
  "hidden_state = snd (run_state (run_hook device_env (Call_setresuid 10123 10123 10123)) armed_state)"

lemma hidden_umounts: "umounts (history hidden_state) = [(''/system/etc'', 2), (''/sbin'', 2)]"
proof -
  let ?s = "armed_state\<lparr>callbackFunction := Empty_callback\<rparr>"
  have env: "env_open_fds device_env h = Some {||}" "env_unshare device_env h fl = 0"
    "env_mount device_env h a b c d e = 0" for h fl a b c d e
    by (simp_all add: device_env_def)
  obtain t where c: "run_state (ScopedRegularReopener device_env) ?s = ([], t)"
    and t: "old_unshare t = Some 4096" "umounts (history t) = []"
    by (simp add: no_open_fds env run_arm umounts_Cons)
  obtain u where n: "run_state (new_mount_ns device_env) t = (Some True, u)" and u: "umounts (history u) = []"
    using t by (simp add: new_mount_ns_def call_old_unshare_def run_simps env umounts_Cons)
  obtain w where a: "run_state (ask_companion device_env (Fd 9)) u = (False, w)"
    by (simp add: ask_companion_def companion_request_def run_simps device_env_def)
  obtain r v where cb: "run_state (run_callback device_env) armed_state = (r, v)" by fastforce
  then have tail: "run_state (hide_tail device_env (Fd 9) [] (Some True)) u = (r, v)"
    using c n by (simp add: run_callback_def run_arm hide_callback_body hide_body_def)
  then have v: "umounts (history v) = [(''/system/etc'', 2), (''/sbin'', 2)]"
    using hide_tail_umounts [OF a, of "[]"] u magisk_selected_points
    by (simp add: device_contents MNT_DETACH_def flip: map_map [of "\<lambda>p. (p, 2)" mount_point, unfolded comp_def])
  have "no_umount (call_old_setresuid device_env ids)" for ids
    by (auto simp: call_old_setresuid_def intro!: emits_intros split: prod.split)
  then have "umounts (history (snd (run_state (call_old_setresuid device_env ids) v))) = umounts (history v)" for ids
    by (rule no_umount_run)
  with cb v show ?thesis
    using hide_tail_reopens [OF tail] by (simp add: hidden_state_def new_setresuid_def)
qed

lemma reachable_armed: "reachable device_env (calm_api 2) (Specializing, armed_state)"
proof -
  have "life_step device_env (calm_api 2) (Starting, fresh_process) (Loaded, loaded_state)"
    by (rule load [OF run_load]) (simp add: loaded_state_def)
  moreover have "life_step device_env (calm_api 2) (Loaded, loaded_state) (Specializing, armed_state)"
    by (rule app [where args = app_args]) (simp add: dispatch run_arm)
  ultimately show ?thesis
    unfolding reachable_def by (meson rtranclp.rtrancl_into_rtrancl rtranclp.rtrancl_refl)
qed

lemma reachable_hidden: "reachable device_env (calm_api 2) (Specializing, hidden_state)"
proof -
  obtain ret where ret: "run_state (run_hook device_env (Call_setresuid 10123 10123 10123)) armed_state =
      (Some ret, hidden_state)"
    using run_hook_some [of armed_state device_env "Call_setresuid 10123 10123 10123"] run_arm(3,4)
    by (cases "run_state (run_hook device_env (Call_setresuid 10123 10123 10123)) armed_state")
      (auto simp: hidden_state_def)
  have "life_step device_env (calm_api 2) (Specializing, armed_state) (Specializing, hidden_state)"
    by (rule hook [OF _ ret]) (simp add: run_arm)
  with reachable_armed show ?thesis
    unfolding reachable_def by (rule rtranclp.rtrancl_into_rtrancl)
qed

section \<open>Properties\<close>

text \<open>
  C5: mounts are changed in a private namespace only. In every reachable state of a process,
  every call of \<open>umount2\<close> in its history comes after an \<open>unshare\<close> with \<open>CLONE_NEWNS\<close> that
  succeeded and after the root was made a recursive slave, and every call of \<open>mount\<close> comes after
  such an \<open>unshare\<close>: nothing is removed from Zygote.
\<close>

theorem umounts_stay_private:
  assumes "reachable E api (ph, s)"
  shows "umounts_private 0 (history s)"
  using assms by (rule reachable_private)

theorem umounts_stay_private_witness:
  "umounts_private 0 (history hidden_state)
   \<and> umounts (history hidden_state) = [(''/system/etc'', 2), (''/sbin'', 2)]"
  using umounts_stay_private [OF reachable_hidden] hidden_umounts by simp


text \<open>A table that a call changes unless it stays inside, for the witness.\<close>

fun zygote_step :: "nat \<times> mountinfo_entry list \<Rightarrow> event \<Rightarrow> nat \<times> mountinfo_entry list" where
  "zygote_step (st, t) e = (ns_step st e, if stays_inside st e then t else table_step t e)"

lemma zygote_stage: "fst (foldl zygote_step (st, t) h) = foldl ns_step st h"
  by (induction h arbitrary: st t) simp_all

lemma zygote_isolated: "isolates (\<lambda>h. snd (foldl zygote_step (0, t) h))"
  unfolding isolates_def
proof (intro allI impI)
  fix h e
  assume "stays_inside (ns_stage h) e"
  then show "snd (foldl zygote_step (0, t) (h @ [e])) = snd (foldl zygote_step (0, t) h)"
    using zygote_stage [of 0 t h] by (cases "foldl zygote_step (0, t) h") (simp add: ns_stage_def)
qed


text \<open>
  C7: over a whole life, from loading to the handler after the specialization and with hook
  calls in any order, a process asks the real \<open>unshare\<close> for at most one mount namespace.
\<close>

theorem one_namespace_per_life:
  assumes "reachable E api (ph, s)"
  shows "mount_unshares (history s) \<le> 1"
  using reachable_budget [OF assms] by (simp add: namespace_budget_def)

theorem one_namespace_per_life_witness: "mount_unshares (history hidden_state) \<le> 1"
  by (rule one_namespace_per_life [OF reachable_hidden])

text \<open>
  C8: no process crashes through a null function pointer. When commits save the original
  functions as documented, then in every reachable state, half-installed hooks and an empty
  callback included, every hook that is in the PLT returns and so does the handler after the
  specialization.
\<close>

theorem life_does_not_crash:
  assumes "commits_save api" and "reachable E api (Specializing, s)" and "hook_installed c s"
  shows "fst (run_state (run_hook E c) s) \<noteq> None \<and> fst (run_state (postAppSpecialize E) s) = Some ()"
proof -
  have "no_crash api Specializing s" using assms(1,2) by (rule reachable_no_crash)
  then have ok: "plt_ok s" "module_api s = Some api"
    "callbackFunction s = Empty_callback \<or> old_unshare s \<noteq> None \<and> old_setresuid s \<noteq> None"
    by (simp_all add: no_crash_def)
  show ?thesis
    using installed_hook_some [OF ok(1) assms(3) ok(3)] restore_hooks_some
    by (simp add: postAppSpecialize_run [OF ok(2)])
qed

theorem life_does_not_crash_witness:
  "fst (run_state (run_hook device_env (Call_setresuid 10123 10123 10123)) armed_state) \<noteq> None
   \<and> fst (run_state (postAppSpecialize device_env) armed_state) = Some ()"
  by (rule life_does_not_crash [OF _ reachable_armed]) (simp_all add: commits_save_def run_arm)

section \<open>Progress\<close>

lemma new_mount_ns_asks:
  assumes "old_unshare s \<noteq> None" and "run_state (new_mount_ns E) s = (r, t)"
  shows "mount_unshares (history t) = Suc (mount_unshares (history s))"
  using assms
  by (auto simp: new_mount_ns_def call_old_unshare_def run_simps mount_unshares_def CLONE_NEWNS_def
      split: option.splits if_splits)

lemma armed_callback_asks:
  assumes "callbackFunction s = Hide_callback f" and "old_unshare s \<noteq> None"
  shows "mount_unshares (history (snd (run_state (run_callback E) s))) = Suc (mount_unshares (history s))"
proof -
  let ?s = "s\<lparr>callbackFunction := Empty_callback\<rparr>"
  obtain srr t where c: "run_state (ScopedRegularReopener E) ?s = (srr, t)" by fastforce
  obtain ns u where n: "run_state (new_mount_ns E) t = (ns, u)" by fastforce
  obtain r v where e: "run_state (hide_tail E f srr ns) u = (r, v)" by fastforce
  have "no_mount_unshare (ScopedRegularReopener E)"
    by (auto intro!: emits_intros)
  then have "mount_unshares (history t) = mount_unshares (history s)"
    using no_mount_unshare_same [OF _ c] by simp
  moreover have "old_unshare t = old_unshare s"
    using keepsD [OF keeps_reopener c, of old_unshare] by simp
  then have "mount_unshares (history u) = Suc (mount_unshares (history t))"
    using assms(2) new_mount_ns_asks [OF _ n] by simp
  moreover have "mount_unshares (history v) = mount_unshares (history u)"
    using hide_tail_no_unshare e by (rule no_mount_unshare_same)
  ultimately show ?thesis
    using c n e assms(1) by (simp add: run_callback_def hide_callback_body hide_body_def)
qed

lemma armed_hook_asks:
  assumes "callbackFunction s = Hide_callback f" and "old_unshare s \<noteq> None"
    and "run_state (run_hook E c) s = (r, t)"
  shows "mount_unshares (history s) < mount_unshares (history t)"
proof -
  obtain es where "history (snd (run_state (run_hooks E [c]) s)) =
      history (snd (run_state (run_callback E) s)) @ es"
    using run_hooks_once [of E c "[]" s] by blast
  moreover have "history (snd (run_state (run_hooks E [c]) s)) = history t"
    using assms(3) by (cases r) simp_all
  ultimately have "history t = history (snd (run_state (run_callback E) s)) @ es" by (metis (no_types))
  then show ?thesis using armed_callback_asks [OF assms(1,2), of E] by simp
qed

text \<open>
  C14: progress. In every reachable state with an armed callback, whichever hook is called next
  returns, and by then a mount namespace was asked for, the only time in that life, and the
  callback is empty.
\<close>

theorem armed_hook_acts:
  assumes "commits_save api" and "reachable E api (Specializing, s)"
    and "callbackFunction s \<noteq> Empty_callback"
  shows "\<exists>ret t. run_state (run_hook E c) s = (Some ret, t) \<and> callbackFunction t = Empty_callback
     \<and> mount_unshares (history s) = 0 \<and> mount_unshares (history t) = 1"
proof -
  obtain f where f: "callbackFunction s = Hide_callback f"
    using assms(3) by (cases "callbackFunction s") simp_all
  have old: "old_unshare s \<noteq> None" "old_setresuid s \<noteq> None"
    using reachable_no_crash [OF assms(1,2)] assms(3) by (simp_all add: no_crash_def)
  then obtain ret t where t: "run_state (run_hook E c) s = (Some ret, t)"
    using run_hook_some [of s E c] by (cases "run_state (run_hook E c) s") auto
  have "mount_unshares (history s) = 0"
    using reachable_budget [OF assms(2)] assms(3) by (simp add: namespace_budget_def)
  with t show ?thesis
    using armed_hook_asks [OF f old(1) t] run_hook_unshares [OF t] assms(3) by simp
qed

theorem armed_hook_acts_witness:
  "\<exists>ret t. run_state (run_hook device_env (Call_unshare CLONE_NEWNS)) armed_state = (Some ret, t)
     \<and> callbackFunction t = Empty_callback \<and> mount_unshares (history armed_state) = 0
     \<and> mount_unshares (history t) = 1"
  by (rule armed_hook_acts [OF _ reachable_armed]) (simp_all add: commits_save_def run_arm)

end
