(* ===== verification/Companion.thy ===== *)
theory Companion
  imports Main_Module
begin

text \<open>
  The companion process of \<open>main.cpp\<close>: what the forked child does in the namespace of the
  app, and what answer the app gets.
\<close>

section \<open>How a child ends\<close>

text \<open>
  The documented status of a child that ran to \<open>exit(code)\<close>: the low byte of the code, in
  the second byte of the status.
\<close>

definition waits_properly :: "env \<Rightarrow> bool" where
  "waits_properly E \<longleftrightarrow>
     (\<forall>h code pid. env_waitpid E (h @ [Ev_exit code]) pid = Some (push_bit 8 (code AND 255)))"

text \<open>The state in which the child starts, and the one in which it ends.\<close>

definition forked :: "env \<Rightarrow> proc \<Rightarrow> proc" where
  "forked E s = s\<lparr>history := history s @ [Ev_fork (env_fork E (history s))]\<rparr>"

lemma run_forkAndInvoke:
  assumes "waits_properly E"
  shows "run_state (forkAndInvoke E m) s =
     (if env_fork E (history s) = - 1 then (- 1, forked E s)
      else let (code, child) = run_state m (forked E s);
               status = push_bit 8 (code AND 255) in
        (status, s\<lparr>history := history child @
           [Ev_exit code, Ev_waitpid (env_fork E (history s)) status]\<rparr>))"
  using assms
  by (auto simp: forkAndInvoke_def run_child_def forked_def waits_properly_def Let_def case_prod_beta)

section \<open>Entering the namespace\<close>

definition ns_path :: "c_int \<Rightarrow> string" where
  "ns_path pid = ''/proc/'' @ to_string pid @ ''/ns/mnt''"

lemma ns_path_inj: "ns_path p = ns_path q \<longleftrightarrow> p = q"
  by (auto simp: ns_path_def dest: to_string_inj)

text \<open>An opened descriptor is closed on both ways out.\<close>

lemma run_switchMountNS:
  "run_state (switchMountNS E pid) s =
     (let f = env_open E (history s) (ns_path pid);
          h = history s @ [Ev_open (ns_path pid) f] in
      if sint (fd_num f) < 0 then (False, s\<lparr>history := h\<rparr>)
      else (env_setns E h f = 0, s\<lparr>history := h @ [Ev_setns f (env_setns E h f), Ev_close f]\<rparr>))"
  by (simp add: switchMountNS_def run_simps ns_path_def Let_def)

lemma switchMountNS_quiet:
  "emits (\<lambda>e. umount_call e = None \<and> mount_call e = None) (switchMountNS E pid)"
  by (auto simp: switchMountNS_def sys_open_def sys_setns_def sys_close_def Let_def
      intro!: emits_intros)

section \<open>The child\<close>

lemma companion_child_refused:
  assumes "run_state (switchMountNS E pid) s = (False, t)"
  shows "run_state (companion_child E pid) s = (1, t)"
  using assms by (simp add: companion_child_def)

lemma companion_child_entered:
  assumes "run_state (switchMountNS E pid) s = (True, t)"
  shows "run_state (companion_child E pid) s =
     (0, snd (run_state (do { doUnmount E; doRemount E; doMrProp E }) t))"
  using assms by (simp add: companion_child_def case_prod_beta)

lemma companion_child_umounts:
  assumes "run_state (switchMountNS E pid) s = (entered, t)"
  shows "umounts (history (snd (run_state (companion_child E pid) s))) =
     umounts (history s) @
     (if entered then map (\<lambda>m. (mount_point m, MNT_DETACH)) (selected (mountinfo_contents E (history t)))
      else [])"
proof -
  have t: "umounts (history t) = umounts (history s)"
    using assms
    by (rule no_umount_same [rotated]) (rule emits_mono [OF switchMountNS_quiet], simp)
  show ?thesis
  proof (cases entered)
    case False
    with assms t show ?thesis by (simp add: companion_child_refused)
  next
    case True
    obtain u where u: "run_state (doUnmount E) t = ((), u)" by (cases "run_state (doUnmount E) t") auto
    have "no_umount (do { doRemount E; doMrProp E })"
      by (auto intro!: emits_intros)
    then have "umounts (history (snd (run_state (do { doRemount E; doMrProp E }) u))) = umounts (history u)"
      by (cases "run_state (do { doRemount E; doMrProp E }) u") (auto dest: no_umount_same)
    with assms True t u show ?thesis
      using doUnmount_umounts [of E t] by (simp add: companion_child_entered)
  qed
qed

section \<open>The answer\<close>

lemma handler_short_request:
  assumes "\<And>bs. env_read E (history s) f 4 = Some bs \<Longrightarrow> length bs \<noteq> 4"
  shows "run_state (zygisk_companion_handler E f) s =
     ((), s\<lparr>history := history s @ [Ev_read f 4 (env_read E (history s) f 4)]\<rparr>)"
  using assms by (auto simp: zygisk_companion_handler_def run_simps split: option.split)

definition requested :: "env \<Rightarrow> fd \<Rightarrow> proc \<Rightarrow> proc" where
  "requested E f s = s\<lparr>history := history s @ [Ev_read f 4 (env_read E (history s) f 4)]\<rparr>"

lemma handler_run:
  assumes "env_read E (history s) f 4 = Some (bytes_of_int pid)"
    and "run_state (forkAndInvoke E (companion_child E pid)) (requested E f s) = (status, t)"
  shows "run_state (zygisk_companion_handler E f) s =
     (let answer = [if WIFEXITED status then 1 else 0] in
      ((), t\<lparr>history := history t @ [Ev_write f answer (env_write E (history t) f answer)]\<rparr>))"
  using assms
  by (simp add: zygisk_companion_handler_def run_simps int_of_bytes_of_int requested_def Let_def)

text \<open>
  The answer tells whether the fork succeeded, nothing else: the exit code of the child is
  not looked at.
\<close>

lemma handler_answer:
  assumes "waits_properly E" and "env_read E (history s) f 4 = Some (bytes_of_int pid)"
  shows "\<exists>r. last (history (snd (run_state (zygisk_companion_handler E f) s))) =
     Ev_write f [if env_fork E (history (requested E f s)) = - 1 then 0 else 1] r"
proof -
  obtain status t where st: "run_state (forkAndInvoke E (companion_child E pid)) (requested E f s) = (status, t)"
    by fastforce
  have "WIFEXITED status \<longleftrightarrow> env_fork E (history (requested E f s)) \<noteq> - 1"
  proof (cases "env_fork E (history (requested E f s)) = - 1")
    case True
    with assms(1) st have "status = - 1" by (simp add: run_forkAndInvoke)
    with True show ?thesis by (metis WIFEXITED_error)
  next
    case False
    with assms(1) st obtain code where "status = push_bit 8 (code AND 255)"
      by (cases "run_state (companion_child E pid) (forked E (requested E f s))")
        (fastforce simp: run_forkAndInvoke Let_def simp del: push_bit_and)
    with False show ?thesis by (metis WIFEXITED_exit)
  qed
  with handler_run [OF assms(2) st] show ?thesis by (simp add: Let_def)
qed

lemma handler_umounts:
  assumes "waits_properly E" and "env_read E (history s) f 4 = Some (bytes_of_int pid)"
    and "env_fork E (history (requested E f s)) \<noteq> - 1"
    and "run_state (switchMountNS E pid) (forked E (requested E f s)) = (entered, t)"
  shows "umounts (history (snd (run_state (zygisk_companion_handler E f) s))) =
     umounts (history s) @
     (if entered then map (\<lambda>m. (mount_point m, MNT_DETACH)) (selected (mountinfo_contents E (history t)))
      else [])"
proof -
  obtain code child where c: "run_state (companion_child E pid) (forked E (requested E f s)) = (code, child)"
    by fastforce
  have start: "umounts (history (forked E (requested E f s))) = umounts (history s)"
    by (simp add: forked_def requested_def umounts_Cons)
  show ?thesis
    using handler_run [OF assms(2)] assms(1,3) c start companion_child_umounts [OF assms(4)]
    by (simp add: run_forkAndInvoke umounts_Cons Let_def)
qed

section \<open>Properties\<close>

text \<open>
  The answer of the companion. For a whole request, and a \<open>waitpid\<close> that reports the exit
  of a child as documented, the last thing the handler does is to write one byte: 1 when the
  fork succeeded and 0 when it did not.
\<close>

theorem companion_answers_fork:
  assumes "waits_properly E" and "env_read E (history s) f 4 = Some (bytes_of_int pid)"
  shows "\<exists>r. last (history (snd (run_state (zygisk_companion_handler E f) s))) =
     Ev_write f [if env_fork E (history s @ [Ev_read f 4 (Some (bytes_of_int pid))]) = - 1 then 0 else 1] r"
  using handler_answer [OF assms] assms(2) by (simp add: requested_def)

definition asked_env :: env where
  "asked_env = magisk_env\<lparr>env_read := (\<lambda>h f n. Some (bytes_of_int 1234))\<rparr>"

lemma asked_waits: "waits_properly asked_env"
  by (simp add: waits_properly_def asked_env_def magisk_env_def calm_env_def)

theorem companion_answers_fork_witness:
  "\<exists>r. last (history (snd (run_state (zygisk_companion_handler asked_env (Fd 4)) fresh_process))) =
     Ev_write (Fd 4) [1] r"
proof -
  have "env_read asked_env (history fresh_process) (Fd 4) 4 = Some (bytes_of_int 1234)"
    by (simp add: asked_env_def)
  from companion_answers_fork [OF asked_waits this] show ?thesis
    by (simp add: asked_env_def magisk_env_def)
qed

text \<open>
  What the child removed. When the fork succeeded, the mounts removed by the handler are
  those selected in the namespace of the app once it was entered, and none when it was not
  entered; either way the answer is the same.
\<close>

theorem companion_removes:
  assumes "waits_properly E" and "env_read E (history s) f 4 = Some (bytes_of_int pid)"
    and "env_fork E (history s @ [Ev_read f 4 (Some (bytes_of_int pid))]) = child" and "child \<noteq> - 1"
    and "run_state (switchMountNS E pid)
      (s\<lparr>history := history s @ [Ev_read f 4 (Some (bytes_of_int pid)), Ev_fork child]\<rparr>) = (entered, t)"
  shows "umounts (history (snd (run_state (zygisk_companion_handler E f) s))) =
       umounts (history s) @
       (if entered then map (\<lambda>m. (mount_point m, MNT_DETACH)) (selected (mountinfo_contents E (history t)))
        else [])
     \<and> (\<exists>r. last (history (snd (run_state (zygisk_companion_handler E f) s))) = Ev_write f [1] r)"
proof -
  have req: "requested E f s = s\<lparr>history := history s @ [Ev_read f 4 (Some (bytes_of_int pid))]\<rparr>"
    using assms(2) by (simp add: requested_def)
  then have fork: "env_fork E (history (requested E f s)) \<noteq> - 1" using assms(3,4) by simp
  have "run_state (switchMountNS E pid) (forked E (requested E f s)) = (entered, t)"
    using assms(3,5) by (simp add: req forked_def)
  from handler_umounts [OF assms(1,2) fork this] handler_answer [OF assms(1,2)] fork
  show ?thesis by simp
qed

theorem companion_removes_witness:
  "umounts (history (snd (run_state (zygisk_companion_handler asked_env (Fd 4)) fresh_process))) =
     [(''/system/etc'', 2), (''/sbin'', 2)]"
proof -
  let ?h = "[Ev_read (Fd 4) 4 (Some (bytes_of_int 1234)), Ev_fork 43]"
  let ?t = "fresh_process\<lparr>history := ?h @ [Ev_open (ns_path 1234) (Fd 7), Ev_setns (Fd 7) 0, Ev_close (Fd 7)]\<rparr>"
  have read: "env_read asked_env (history fresh_process) (Fd 4) 4 = Some (bytes_of_int 1234)"
    and fork: "env_fork asked_env (history fresh_process @ [Ev_read (Fd 4) 4 (Some (bytes_of_int 1234))]) = 43"
    by (simp_all add: asked_env_def magisk_env_def)
  have "(43 :: c_int) \<noteq> - 1" by simp
  moreover have "run_state (switchMountNS asked_env 1234) (fresh_process\<lparr>history := history fresh_process @
      [Ev_read (Fd 4) 4 (Some (bytes_of_int 1234)), Ev_fork 43]\<rparr>) = (True, ?t)"
    by (simp add: run_switchMountNS asked_env_def magisk_env_def Let_def)
  moreover have "mountinfo_contents asked_env h = magisk_table" for h
    using magisk_contents [of h] by (simp add: asked_env_def mountinfo_contents_def cong: option.case_cong)
  ultimately have "umounts (history (snd (run_state (zygisk_companion_handler asked_env (Fd 4)) fresh_process))) =
      map (\<lambda>p. (p, MNT_DETACH)) (map mount_point (selected magisk_table))"
    using companion_removes [OF asked_waits read fork] by simp
  then show ?thesis by (simp add: magisk_selected_points MNT_DETACH_def)
qed

text \<open>
  A request that does not arrive whole is not answered: nothing is forked and nothing is
  written.
\<close>

theorem companion_ignores_short_request:
  assumes "map_option length (env_read E (history s) f 4) \<noteq> Some 4"
  shows "run_state (zygisk_companion_handler E f) s =
     ((), s\<lparr>history := history s @ [Ev_read f 4 (env_read E (history s) f 4)]\<rparr>)"
  using assms by (intro handler_short_request) auto

theorem companion_ignores_short_request_witness:
  "history (snd (run_state (zygisk_companion_handler (calm_env\<lparr>env_read := (\<lambda>h f n. Some [7, 7])\<rparr>) (Fd 4))
     fresh_process)) = [Ev_read (Fd 4) 4 (Some [7, 7])]"
  by (subst companion_ignores_short_request) simp_all

section \<open>Requests do not affect one another\<close>

text \<open>
  The child works on a copy of the process: in the companion itself only the history grows,
  so that the caches, the flag of the property area and the counter are those of a fresh
  process at every request.
\<close>

definition only_history :: "(proc, 'a) state \<Rightarrow> bool" where
  "only_history m \<longleftrightarrow> (\<forall>s. \<exists>es. snd (run_state m s) = s\<lparr>history := history s @ es\<rparr>)"

lemma only_history_return: "only_history (State_Monad.return a)"
  by (auto simp: only_history_def intro: exI [of _ "[]"])

lemma only_history_call: "only_history (call answer ev)"
  by (auto simp: only_history_def)

lemma only_history_bind:
  assumes "only_history m" and "\<And>a. only_history (f a)"
  shows "only_history (m \<bind> f)"
  unfolding only_history_def
proof
  fix s
  obtain a t where m: "run_state m s = (a, t)" by fastforce
  then obtain es where "t = s\<lparr>history := history s @ es\<rparr>"
    using assms(1) unfolding only_history_def by (metis snd_conv)
  moreover obtain es' where "snd (run_state (f a) t) = t\<lparr>history := history t @ es'\<rparr>"
    using assms(2) unfolding only_history_def by blast
  ultimately show "\<exists>es. snd (run_state (m \<bind> f) s) = s\<lparr>history := history s @ es\<rparr>"
    using m by (intro exI [of _ "es @ es'"]) simp
qed

lemma only_history_child:
  assumes "emits (\<lambda>e. True) m"
  shows "only_history (run_child m)"
  unfolding only_history_def
proof
  fix s
  obtain code child where m: "run_state m s = (code, child)" by fastforce
  then obtain es where "history child = history s @ es" using assms by (auto elim: emitsD)
  with m show "\<exists>es. snd (run_state (run_child m) s) = s\<lparr>history := history s @ es\<rparr>"
    by (intro exI [of _ "es @ [Ev_exit code]"]) (simp add: run_child_def)
qed

lemma only_history_handler: "only_history (zygisk_companion_handler E f)"
proof -
  have "emits (\<lambda>e. True) (companion_child E pid)" for pid
    by (auto simp: companion_child_def switchMountNS_def sys_open_def sys_setns_def sys_close_def Let_def
        intro!: emits_intros)
  then have fork: "only_history (forkAndInvoke E (companion_child E pid))" for pid
    by (auto simp: forkAndInvoke_def intro!: only_history_bind only_history_call only_history_return
        only_history_child)
  show ?thesis
    by (auto simp: zygisk_companion_handler_def sys_read_def sys_write_def Let_def fork
        intro!: only_history_bind only_history_call only_history_return split: option.split)
qed

lemma only_history_for_each: "(\<And>x. only_history (f x)) \<Longrightarrow> only_history (for_each xs f)"
  by (induction xs) (auto intro: only_history_bind only_history_return)

text \<open>
  C22: requests are isolated. Whatever requests the companion serves, one after the other, and
  whatever the calls of the children return, of the state of the companion's own process only
  the history changes: the static caches and the property flag the children use are those of
  a process that served no request.
\<close>

theorem requests_isolated:
  "\<exists>es. run_state (for_each clients (zygisk_companion_entry E)) s = ((), s\<lparr>history := history s @ es\<rparr>)"
proof -
  have "only_history (for_each clients (zygisk_companion_entry E))"
    by (rule only_history_for_each) (simp add: zygisk_companion_entry_def only_history_handler)
  then obtain es where "snd (run_state (for_each clients (zygisk_companion_entry E)) s) =
      s\<lparr>history := history s @ es\<rparr>"
    unfolding only_history_def by blast
  then show ?thesis by (intro exI [of _ es]) (simp add: prod_eq_iff)
qed

end
