(* ===== verification/Removal.thy ===== *)
theory Removal
  imports Modules
begin

text \<open>
  What one run of \<open>doUnmount\<close> leaves behind: the criteria of \<open>shouldUnmount\<close> are evaluated
  against the mounts as they were before the run, and the resolver of roots depends on them.
  Under the guarantees of the kernel nothing that is left is selected by a second run; a mount
  that stays on top of a selected one is taken away in its place.
\<close>

section \<open>One pass is enough\<close>

text \<open>
  What the kernel guarantees of two mounts of one device: they show the same superblock, so
  they agree on its type, its source and its options.
\<close>

definition same_superblock :: "mountinfo_entry list \<Rightarrow> bool" where
  "same_superblock infos \<longleftrightarrow>
     list_all (\<lambda>x. list_all (\<lambda>y. device x = device y \<longrightarrow>
       filesystem_type x = filesystem_type y \<and> mount_source x = mount_source y
       \<and> super_options x = super_options y) infos) infos"

text \<open>The criteria that look at the superblock only.\<close>

definition superblock_selected :: "mountinfo_entry \<Rightarrow> bool" where
  "superblock_selected m \<longleftrightarrow>
     filesystem_type m = ''overlay''
       \<and> (\<exists>dir \<in> set mountdir_list. \<exists>key \<in> {''lowerdir'', ''upperdir'', ''workdir''}. \<exists>v.
            super_options m key = Some v \<and> starts_with v dir)
     \<or> filesystem_type m \<in> {''overlay'', ''tmpfs''} \<and> mount_source m \<in> fsname_list"

definition under_mountdir :: "string \<Rightarrow> bool" where
  "under_mountdir path \<longleftrightarrow> (\<exists>dir \<in> set mountdir_list. starts_with path dir)"

lemma shouldUnmount_split:
  "shouldUnmount m rr \<longleftrightarrow>
     under_mountdir (resolveRootOf rr m) \<or> under_mountdir (mount_point m) \<or> superblock_selected m"
  by (auto simp: shouldUnmount_def touches_mountdir_iff under_mountdir_def superblock_selected_def Let_def)

lemma under_mountdir_append: "under_mountdir p \<Longrightarrow> under_mountdir (p @ q)"
  by (fastforce simp: under_mountdir_def prefix_def)

lemma under_mountdir_slash: "under_mountdir (p @ ''/'') \<longleftrightarrow> under_mountdir p"
  by (auto simp: under_mountdir_def mountdir_list_def)

lemma same_superblock_selected:
  assumes "same_superblock infos" and "x \<in> set infos" and "y \<in> set infos" and "device x = device y"
  shows "superblock_selected x \<longleftrightarrow> superblock_selected y"
proof -
  have "filesystem_type x = filesystem_type y" "mount_source x = mount_source y"
    "super_options x = super_options y"
    using assms unfolding same_superblock_def list_all_iff by blast+
  then show ?thesis by (simp only: superblock_selected_def)
qed

text \<open>
  When the mount of a whole file system goes, every mount of the same device goes with it: its
  root is resolved to a path under the one that went.
\<close>

lemma root_goes_all_go:
  assumes "same_superblock infos" and "r \<in> set infos" and "e \<in> set infos" and "device r = device e"
    and "rr (device e) = Some (mount_point r)" and "root r = ''/''" and "shouldUnmount r rr"
  shows "shouldUnmount e rr"
proof (cases "superblock_selected r")
  case True
  then show ?thesis
    using same_superblock_selected [OF assms(1-4)] by (simp add: shouldUnmount_split)
next
  case False
  have "\<not> under_mountdir ''/''" by (simp add: under_mountdir_def mountdir_list_def)
  then have "mount_point r \<noteq> ''/'' \<and> under_mountdir (mount_point r)"
    using False assms(4-7) under_mountdir_slash [of "mount_point r"]
    by (auto simp: shouldUnmount_split resolveRootOf_def split: if_splits)
  then show ?thesis
    using assms(5) under_mountdir_append by (simp add: shouldUnmount_split resolveRootOf_def)
qed

lemma stays_unselected:
  assumes "same_superblock infos" and "e \<in> set infos"
    and "\<not> shouldUnmount e (mountinfo_root_resolver infos)"
  shows "\<not> shouldUnmount e (mountinfo_root_resolver
    (filter (\<lambda>m. \<not> shouldUnmount m (mountinfo_root_resolver infos)) infos))"
proof -
  let ?rr = "mountinfo_root_resolver infos" and ?P = "\<lambda>r. root r = ''/'' \<and> device r = device e"
  let ?rr' = "mountinfo_root_resolver (filter (\<lambda>m. \<not> shouldUnmount m ?rr) infos)"
  have "?rr' (device e) = ?rr (device e)"
  proof (cases "find ?P (rev infos)")
    case None
    then show ?thesis by (simp add: mountinfo_root_resolver_last find_filter_None rev_filter)
  next
    case (Some r)
    then have "?P r" "r \<in> set infos" by (auto dest: find_SomeD)
    moreover have "?rr (device e) = Some (mount_point r)"
      using Some by (simp add: mountinfo_root_resolver_last)
    ultimately have "\<not> shouldUnmount r ?rr"
      using assms root_goes_all_go [of infos r e ?rr] by auto
    with Some show ?thesis by (simp add: mountinfo_root_resolver_last find_filter_Some rev_filter)
  qed
  then show ?thesis using assms(3) by (simp add: shouldUnmount_split resolveRootOf_def)
qed

lemma selected_rest:
  assumes "same_superblock infos"
  shows "selected (filter (\<lambda>m. \<not> shouldUnmount m (mountinfo_root_resolver infos)) infos) = []"
  using stays_unselected [OF assms] by (auto simp: selected_def filter_empty_conv)


section \<open>A mount on top of a selected one\<close>

lemma one_umount:
  assumes "detaches_topmost E table" and "\<And>h p. env_umount2 E h p MNT_DETACH = 0"
    and "in_sync E table (history s)" and "table (history s) = xs @ n # ys"
    and "selected (xs @ n # ys) = [m]" and "mount_point n = mount_point m"
    and "list_all (\<lambda>y. mount_point y \<noteq> mount_point m) ys"
  shows "table (history (snd (run_state (doUnmount E) s))) = xs @ ys"
proof -
  let ?h = "history s @ [opened_mountinfo E (history s)]"
  have "mountinfo_contents E (history s) = xs @ n # ys" and h: "table ?h = xs @ n # ys"
    using assms(3,4) by (simp_all add: in_sync_def)
  then have "history (snd (run_state (doUnmount E) s)) = ?h @ [umount_event n 0]"
    using assms(2,5,6)
    by (simp add: doUnmount_def parseSelfMountinfo_fresh for_each_filter run_simps Let_def flip: selected_def)
  moreover have "table (?h @ [umount_event n 0]) = xs @ ys"
    using assms(1,2,6,7) h unfolding detaches_topmost_def by (fastforce simp: list_all_iff)
  ultimately show ?thesis by simp
qed

section \<open>Properties\<close>




definition covered_line :: "nat \<Rightarrow> string \<Rightarrow> mount_line" where
  "covered_line n src = \<lparr>ml_id = n, ml_parent = 1, ml_major = 0, ml_minor = n, ml_root = ''/'', ml_point = ''/sbin'',
     ml_options = ''rw'', ml_optional = [], ml_type = ''tmpfs'', ml_source = src, ml_super = ''rw''\<rparr>"

definition covered_env :: env where
  "covered_env = calm_env\<lparr>env_file := (\<lambda>h path. if path = ''/proc/self/mountinfo''
     then Some (render_mountinfo [covered_line 30 ''magisk'', covered_line 31 ''tmpfs'']) else None)\<rparr>"


end
