(* ===== verification/Session.thy ===== *)
theory Session
  imports Lifecycle Companion Removal
begin

text \<open>
  The mount table of the app's namespace while the app and its companion work on it: the
  handler changes it through the child that entered the namespace, and the callback
  afterwards. Calls that remount or change the propagation leave every mount where it is.
\<close>

section \<open>Where things are mounted\<close>

definition places :: "mountinfo_entry list \<Rightarrow> (dev_t \<times> string \<times> string) list" where
  "places = map (\<lambda>m. (device m, root m, mount_point m))"

fun moves_mounts :: "event \<Rightarrow> bool" where
  "moves_mounts (Ev_umount2 p flags r) \<longleftrightarrow> True"
| "moves_mounts (Ev_mount src tgt ty flags opts r) \<longleftrightarrow> \<not> bit flags 5 \<and> flags \<noteq> MS_SLAVE OR MS_REC"
| "moves_mounts _ \<longleftrightarrow> False"

text \<open>
  The kernel as far as the two sides use it: a successful \<open>umount2\<close> detaches the topmost mount of
  its path, the calls succeed, and a call that neither mounts nor unmounts keeps what is
  mounted where.
\<close>

definition mount_kernel :: "env \<Rightarrow> (history \<Rightarrow> mountinfo_entry list) \<Rightarrow> bool" where
  "mount_kernel E table \<longleftrightarrow>
     detaches_topmost E table \<and> (\<forall>h p. env_umount2 E h p MNT_DETACH = 0)
     \<and> (\<forall>h e. \<not> moves_mounts e \<longrightarrow> places (table (h @ [e])) = places (table h))"

lemma places_events:
  assumes "mount_kernel E table" and "list_all (\<lambda>e. \<not> moves_mounts e) es"
  shows "places (table (h @ es)) = places (table h)"
  using assms(2)
proof (induction es rule: rev_induct)
  case (snoc e es)
  then show ?case
    using assms(1) by (simp add: mount_kernel_def flip: append_assoc)
qed simp

lemma places_kept:
  assumes "mount_kernel E table" and "emits (\<lambda>e. \<not> moves_mounts e) m" and "run_state m s = (a, t)"
  shows "places (table (history t)) = places (table (history s))"
proof -
  obtain es where "history t = history s @ es" and "list_all (\<lambda>e. \<not> moves_mounts e) es"
    using assms(2,3) by (rule emitsD)
  with assms(1) show ?thesis by (simp add: places_events)
qed

text \<open>What is left when the selected mounts are gone.\<close>

definition hidden_places :: "mountinfo_entry list \<Rightarrow> (dev_t \<times> string \<times> string) list" where
  "hidden_places infos =
     places (filter (\<lambda>m. \<not> shouldUnmount m (mountinfo_root_resolver infos)) infos)"

definition tidy :: "mountinfo_entry list \<Rightarrow> bool" where
  "tidy infos \<longleftrightarrow> uncovered (\<lambda>m. shouldUnmount m (mountinfo_root_resolver infos)) infos"

lemma doUnmount_places:
  assumes "mount_kernel E table" and "in_sync E table (history s)" and "table (history s) = infos"
    and "tidy infos"
  shows "places (table (history (snd (run_state (doUnmount E) s)))) = hidden_places infos"
  using doUnmount_table [of E table s infos] assms by (simp add: mount_kernel_def tidy_def hidden_places_def)

section \<open>The side of the companion\<close>

lemma companion_child_places:
  assumes "mount_kernel E table" and "run_state (switchMountNS E pid) s = (True, t)"
    and "in_sync E table (history t)" and "table (history t) = infos" and "tidy infos"
  shows "places (table (history (snd (run_state (companion_child E pid) s)))) = hidden_places infos"
proof -
  obtain u where u: "run_state (doUnmount E) t = ((), u)" by (cases "run_state (doUnmount E) t") auto
  obtain v where v: "run_state (do { doRemount E; doMrProp E }) u = ((), v)"
    by (cases "run_state (do { doRemount E; doMrProp E }) u") auto
  have "emits (\<lambda>e. \<not> moves_mounts e) (do { doRemount E; doMrProp E })"
    by (auto intro!: emits_intros)
  from places_kept [OF assms(1) this v] u v show ?thesis
    using doUnmount_places [OF assms(1,3-5)] by (simp add: companion_child_entered [OF assms(2)] case_prod_beta)
qed

lemma handler_places:
  assumes "mount_kernel E table" and "waits_properly E"
    and "env_read E (history s) f 4 = Some (bytes_of_int pid)"
    and "env_fork E (history (requested E f s)) \<noteq> - 1"
    and "run_state (switchMountNS E pid) (forked E (requested E f s)) = (True, t)"
    and "in_sync E table (history t)" and "table (history t) = infos" and "tidy infos"
  shows "places (table (history (snd (run_state (zygisk_companion_handler E f) s)))) = hidden_places infos"
proof -
  obtain code child where c: "run_state (companion_child E pid) (forked E (requested E f s)) = (code, child)"
    by fastforce
  obtain es where "history (snd (run_state (zygisk_companion_handler E f) s)) = history child @ es"
    and "list_all (\<lambda>e. \<not> moves_mounts e) es"
    using handler_run [OF assms(3)] assms(2,4) c by (simp add: run_forkAndInvoke Let_def)
  then show ?thesis
    using companion_child_places [OF assms(1,5-8)] c places_events [OF assms(1)] by simp
qed

section \<open>The side of the app\<close>

text \<open>The callback up to the answer of the companion.\<close>

definition asked :: "env \<Rightarrow> fd \<Rightarrow> proc \<Rightarrow> fd_info list \<Rightarrow> proc \<Rightarrow> bool \<Rightarrow> proc \<Rightarrow> bool" where
  "asked E f s srr u result w \<longleftrightarrow>
     (\<exists>t. run_state (ScopedRegularReopener E) (s\<lparr>callbackFunction := Empty_callback\<rparr>) = (srr, t)
        \<and> run_state (new_mount_ns E) t = (Some True, u))
     \<and> run_state (ask_companion E f) u = (result, w)"

lemma asked_hide_callback:
  assumes "asked E f s srr u result w"
  shows "run_state (hide_callback E f) s =
     run_state (do {
       (if result then State_Monad.return () else doUnmount E);
       doHideZygisk E;
       ScopedRegularReopener_end srr;
       State_Monad.return (Some ()) }) w"
  using assms by (auto simp: asked_def hide_callback_body hide_body_def hide_tail_def)

lemma hide_callback_places:
  assumes "mount_kernel E table" and "asked E f s srr u result w"
    and "\<not> result \<Longrightarrow> in_sync E table (history w) \<and> tidy (table (history w))"
  shows "places (table (history (snd (run_state (hide_callback E f) s)))) =
     (if result then places (table (history w)) else hidden_places (table (history w)))"
proof -
  define m where "m = do { doHideZygisk E; ScopedRegularReopener_end srr; State_Monad.return (Some ()) }"
  define x where "x = (if result then w else snd (run_state (doUnmount E) w))"
  have "run_state (hide_callback E f) s = run_state m x"
    unfolding asked_hide_callback [OF assms(2)] m_def x_def by (simp add: case_prod_beta)
  moreover have "emits (\<lambda>e. \<not> moves_mounts e) m"
    unfolding m_def by (auto intro!: emits_intros)
  then have "places (table (history (snd (run_state m x)))) = places (table (history x))"
    using places_kept [OF assms(1)] by (metis prod.collapse)
  ultimately show ?thesis
    using doUnmount_places [OF assms(1) _ refl, of w] assms(3) by (simp add: x_def)
qed

section \<open>A table and a process for the witnesses\<close>

lemma table_step_other: "\<not> moves_mounts e \<Longrightarrow> table_step t e = t"
  by (cases e) simp_all

lemma table_step_kernel: "(\<And>h p. env_umount2 E h p MNT_DETACH = 0) \<Longrightarrow> mount_kernel E (foldl table_step t)"
  using table_step_detaches by (simp add: mount_kernel_def table_step_other)

definition private_zygote :: proc where
  "private_zygote = zygote\<lparr>history := [Ev_GetOpenFds True, Ev_unshare 4096 CLONE_NEWNS 0,
     Ev_mount (Some ''rootfs'') ''/'' None (MS_SLAVE OR MS_REC) None 0],
     callbackFunction := Empty_callback\<rparr>"

lemma zygote_asked:
  assumes "\<And>h. env_open_fds E h = Some {||}" and "\<And>h fl. env_unshare E h fl = 0"
    and "\<And>h a b c d e. env_mount E h a b c d e = 0"
  shows "asked E f zygote [] private_zygote
     (fst (run_state (ask_companion E f) private_zygote)) (snd (run_state (ask_companion E f) private_zygote))"
proof -
  let ?a = "zygote\<lparr>callbackFunction := Empty_callback\<rparr>"
  have "run_state (ScopedRegularReopener E) ?a = ([], ?a\<lparr>history := [Ev_GetOpenFds True]\<rparr>)"
    using assms(1) by (subst no_open_fds) (simp_all add: zygote_def)
  moreover have "run_state (new_mount_ns E) (?a\<lparr>history := [Ev_GetOpenFds True]\<rparr>) = (Some True, private_zygote)"
    by (simp add: new_mount_ns_def call_old_unshare_def run_simps assms zygote_def private_zygote_def)
  ultimately show ?thesis by (auto simp: asked_def)
qed

end
