(* ===== verification/Exchange.thy ===== *)
theory Exchange
  imports Companion
begin

text \<open>
  The exchange over the socket, interleaved. The app and the companion's handler run at the same
  time and wait for one another at \<open>read\<close>; the steps are those of \<open>main.cpp\<close> on either side,
  in any order. The other theories take what the calls return from an environment: here it
  is shown which answers the socket can give.
\<close>

section \<open>Two processes and a socket\<close>

text \<open>
  The app in its callback: before the namespace, before \<open>write\<close>, in \<open>read\<close>, before \<open>close\<close> with the bytes
  it read, and after it returned, early or with these bytes. The handler: in \<open>read\<close>, with the request in its
  child, before \<open>write\<close>, and after it returned.
\<close>

datatype app_pc = A_namespace | A_request | A_answer | A_close "byte list" | A_returned "byte list option"

datatype companion_pc = C_request | C_child "byte list" | C_reply "byte list" byte | C_returned

record exchange =
  app_at :: app_pc
  companion_at :: companion_pc
  to_companion :: "byte list"
  to_app :: "byte list"
  app_open :: bool
  companion_open :: bool
  sent :: nat                                \<comment> \<open>what the app's \<open>write\<close> returned\<close>
  replied :: "(byte list \<times> byte) option"     \<comment> \<open>the request the handler answered, and its answer\<close>

definition exchange_start :: exchange where
  "exchange_start = \<lparr>app_at = A_namespace, companion_at = C_request, to_companion = [], to_app = [],
     app_open = True, companion_open = True, sent = 0, replied = None\<rparr>"

text \<open>
  A \<open>write\<close> may take fewer bytes or none. A \<open>read\<close> returns when there are bytes or the other end is
  closed. What the handler's child does is in \<open>companion_child\<close>; here its outcome is any truth value. The
  framework closes the companion's end after the handler has returned.
\<close>

inductive app_step :: "c_int \<Rightarrow> exchange \<Rightarrow> exchange \<Rightarrow> bool" for pid :: c_int where
  namespace: "app_at x = A_namespace \<Longrightarrow> app_step pid x (x\<lparr>app_at := A_request\<rparr>)"
| no_namespace: "app_at x = A_namespace \<Longrightarrow> app_step pid x (x\<lparr>app_at := A_returned None\<rparr>)"
| send: "app_at x = A_request \<Longrightarrow> k \<le> 4 \<Longrightarrow>
    app_step pid x (x\<lparr>app_at := (if k = 4 then A_answer else A_close []), sent := k,
      to_companion := to_companion x @ take k (bytes_of_int pid)\<rparr>)"
| receive: "app_at x = A_answer \<Longrightarrow> to_app x = b # bs \<Longrightarrow>
    app_step pid x (x\<lparr>app_at := A_close [b], to_app := bs\<rparr>)"
| receive_end: "app_at x = A_answer \<Longrightarrow> to_app x = [] \<Longrightarrow> \<not> companion_open x \<Longrightarrow>
    app_step pid x (x\<lparr>app_at := A_close []\<rparr>)"
| close: "app_at x = A_close got \<Longrightarrow>
    app_step pid x (x\<lparr>app_at := A_returned (Some got), app_open := False\<rparr>)"

inductive companion_step :: "exchange \<Rightarrow> exchange \<Rightarrow> bool" where
  request: "companion_at x = C_request \<Longrightarrow> to_companion x \<noteq> [] \<or> \<not> app_open x \<Longrightarrow>
    companion_step x (x\<lparr>companion_at :=
      (if 4 \<le> length (to_companion x) then C_child (take 4 (to_companion x)) else C_returned),
      to_companion := drop 4 (to_companion x)\<rparr>)"
| child: "companion_at x = C_child bs \<Longrightarrow> b \<in> {0, 1} \<Longrightarrow>
    companion_step x (x\<lparr>companion_at := C_reply bs b\<rparr>)"
| reply: "companion_at x = C_reply bs b \<Longrightarrow>
    companion_step x (x\<lparr>companion_at := C_returned, to_app := to_app x @ [b], replied := Some (bs, b)\<rparr>)"
| hang_up: "companion_at x = C_returned \<Longrightarrow> companion_open x \<Longrightarrow>
    companion_step x (x\<lparr>companion_open := False\<rparr>)"

inductive_cases app_stepE: "app_step pid x y"
inductive_cases companion_stepE: "companion_step x y"

definition exchange_step :: "c_int \<Rightarrow> exchange \<Rightarrow> exchange \<Rightarrow> bool" where
  "exchange_step pid x y \<longleftrightarrow> app_step pid x y \<or> companion_step x y"

section \<open>Every exchange ends\<close>

fun app_left :: "app_pc \<Rightarrow> nat" where
  "app_left A_namespace = 4"
| "app_left A_request = 3"
| "app_left A_answer = 2"
| "app_left (A_close got) = 1"
| "app_left (A_returned got) = 0"

fun companion_left :: "companion_pc \<Rightarrow> nat" where
  "companion_left C_request = 3"
| "companion_left (C_child bs) = 2"
| "companion_left (C_reply bs b) = 1"
| "companion_left C_returned = 0"

definition steps_left :: "exchange \<Rightarrow> nat" where
  "steps_left x = app_left (app_at x) + companion_left (companion_at x) + (if companion_open x then 1 else 0)"

lemma exchange_step_left: "exchange_step pid x y \<Longrightarrow> steps_left y < steps_left x"
  by (auto simp: exchange_step_def steps_left_def elim!: app_stepE companion_stepE)

lemma exchange_run_length: "(exchange_step pid ^^ n) x y \<Longrightarrow> n + steps_left y \<le> steps_left x"
  by (induction n arbitrary: y) (auto dest!: exchange_step_left, fastforce)

section \<open>What can be in the socket\<close>

text \<open>
  What holds whatever the interleaving: the handler sees the app's process id or less than four bytes of it,
  and the answer in the socket, or read from it, is the one the handler gave.
\<close>

fun exchange_ok :: "c_int \<Rightarrow> companion_pc \<Rightarrow> exchange \<Rightarrow> bool" where
  "exchange_ok pid C_request x \<longleftrightarrow>
     companion_open x \<and> to_app x = [] \<and> replied x = None \<and> to_companion x = take (sent x) (bytes_of_int pid)
     \<and> (case app_at x of
          A_answer \<Rightarrow> sent x = 4
        | A_close got \<Rightarrow> got = [] \<and> sent x < 4
        | A_returned (Some got) \<Rightarrow> got = [] \<and> sent x < 4
        | _ \<Rightarrow> sent x = 0)"
| "exchange_ok pid C_returned x \<longleftrightarrow>
     to_app x = [] \<and> sent x < 4 \<and> replied x = None \<and> app_at x \<in> {A_close [], A_returned (Some [])}
     \<or> (\<exists>b. sent x = 4 \<and> replied x = Some (bytes_of_int pid, b)
         \<and> (app_at x = A_answer \<and> to_app x = [b] \<or> app_at x \<in> {A_close [b], A_returned (Some [b])} \<and> to_app x = []))"
| "exchange_ok pid at x \<longleftrightarrow>
     companion_open x \<and> to_app x = [] \<and> replied x = None \<and> sent x = 4 \<and> app_at x = A_answer
     \<and> (case at of C_child bs \<Rightarrow> bs = bytes_of_int pid | C_reply bs b \<Rightarrow> bs = bytes_of_int pid | _ \<Rightarrow> True)"

definition exchange_inv :: "c_int \<Rightarrow> exchange \<Rightarrow> bool" where
  "exchange_inv pid x \<longleftrightarrow> (app_open x \<longleftrightarrow> (\<forall>got. app_at x \<noteq> A_returned (Some got)))
     \<and> exchange_ok pid (companion_at x) x"

lemma exchange_inv_start: "exchange_inv pid exchange_start"
  by (simp add: exchange_inv_def exchange_start_def)

lemma app_step_inv:
  assumes "app_step pid x y" and "exchange_inv pid x"
  shows "exchange_inv pid y"
  using assms
proof (induction rule: app_step.induct)
  case (namespace x)
  then show ?case by (cases "companion_at x") (auto simp: exchange_inv_def)
next
  case (no_namespace x)
  then show ?case by (cases "companion_at x") (auto simp: exchange_inv_def)
next
  case (send x k)
  then show ?case by (cases "companion_at x") (auto simp: exchange_inv_def)
next
  case (receive x b bs)
  then show ?case by (cases "companion_at x") (auto simp: exchange_inv_def)
next
  case (receive_end x)
  then show ?case by (cases "companion_at x") (auto simp: exchange_inv_def)
next
  case (close x got)
  then show ?case by (cases "companion_at x") (auto simp: exchange_inv_def)
qed

lemma companion_step_inv:
  assumes "companion_step x y" and "exchange_inv pid x"
  shows "exchange_inv pid y"
  using assms
proof (induction rule: companion_step.induct)
  case (request x)
  have "take 4 (bytes_of_int pid) = bytes_of_int pid" by simp
  with request show ?case
    by (cases "app_at x") (auto simp: exchange_inv_def split: option.splits)
qed (auto simp: exchange_inv_def)

lemma exchange_inv_step: "exchange_step pid x y \<Longrightarrow> exchange_inv pid x \<Longrightarrow> exchange_inv pid y"
  using app_step_inv companion_step_inv by (auto simp: exchange_step_def)

lemma exchange_run_inv: "(exchange_step pid ^^ n) exchange_start x \<Longrightarrow> exchange_inv pid x"
  by (induction n arbitrary: x) (auto simp: exchange_inv_start dest: exchange_inv_step)

text \<open>Where no step is left.\<close>

lemma exchange_stuck:
  assumes "exchange_inv pid x" and "\<not> (\<exists>y. exchange_step pid x y)"
  shows "app_at x = A_returned None \<and> companion_at x = C_request
     \<or> (\<exists>got. app_at x = A_returned (Some got) \<and> companion_at x = C_returned
          \<and> (got = [] \<and> sent x < 4 \<and> replied x = None
             \<or> (\<exists>b. got = [b] \<and> sent x = 4 \<and> replied x = Some (bytes_of_int pid, b))))"
proof -
  have stuck: "\<not> app_step pid x y" "\<not> companion_step x y" for y
    using assms(2) by (auto simp: exchange_step_def)
  have app: "app_at x \<noteq> A_namespace" "app_at x \<noteq> A_request" "app_at x \<noteq> A_close got"
    "app_at x = A_answer \<Longrightarrow> to_app x = []" for got
    using stuck(1) namespace send [of x 0 pid] close receive by (metis, metis zero_le, metis, metis list.exhaust)
  show ?thesis
  proof (cases "companion_at x")
    case C_request
    then have "to_companion x = []" "app_open x" using stuck request by metis+
    with C_request assms(1) app show ?thesis
      by (cases "app_at x") (auto simp: exchange_inv_def bytes_of_int_def split: option.splits)
  next
    case (C_child bs)
    then show ?thesis using stuck(2) child [of x bs 0] by simp
  next
    case (C_reply bs b)
    then show ?thesis using stuck reply by metis
  next
    case C_returned
    then show ?thesis using assms(1) app by (auto simp: exchange_inv_def)
  qed
qed

section \<open>Properties\<close>


text \<open>A whole exchange, for the witness.\<close>

definition exchange_end :: "byte list \<Rightarrow> exchange" where
  "exchange_end bs = \<lparr>app_at = A_returned (Some [1]), companion_at = C_returned, to_companion = [], to_app = [],
     app_open = False, companion_open = False, sent = 4, replied = Some (bs, 1)\<rparr>"

lemma whole_exchange: "(exchange_step 42 ^^ 8) exchange_start (exchange_end (bytes_of_int 42))"
proof -
  let ?bs = "bytes_of_int 42"
  let ?x1 = "exchange_start\<lparr>app_at := A_request\<rparr>"
  let ?x2 = "?x1\<lparr>app_at := A_answer, sent := 4, to_companion := ?bs\<rparr>"
  let ?x3 = "?x2\<lparr>companion_at := C_child ?bs, to_companion := []\<rparr>"
  let ?x4 = "?x3\<lparr>companion_at := C_reply ?bs 1\<rparr>"
  let ?x5 = "?x4\<lparr>companion_at := C_returned, to_app := [1], replied := Some (?bs, 1)\<rparr>"
  let ?x6 = "?x5\<lparr>app_at := A_close [1], to_app := []\<rparr>"
  let ?x7 = "?x6\<lparr>app_at := A_returned (Some [1]), app_open := False\<rparr>"
  have "exchange_step 42 exchange_start ?x1"
    using namespace [of exchange_start 42] by (simp add: exchange_start_def exchange_step_def)
  then have "(exchange_step 42 ^^ 1) exchange_start ?x1" by (simp only: relpowp_1)
  moreover have "exchange_step 42 ?x1 ?x2"
    using send [of ?x1 4 42] by (simp add: exchange_step_def exchange_start_def)
  moreover have "exchange_step 42 ?x2 ?x3"
    using request [of ?x2] by (simp add: exchange_step_def exchange_start_def bytes_of_int_def)
  moreover have "exchange_step 42 ?x3 ?x4"
    using child [of ?x3 ?bs 1] by (simp add: exchange_step_def)
  moreover have "exchange_step 42 ?x4 ?x5"
    using reply [of ?x4 ?bs 1] by (simp add: exchange_step_def exchange_start_def)
  moreover have "exchange_step 42 ?x5 ?x6"
    using receive [of ?x5 1 "[]" 42] by (simp add: exchange_step_def)
  moreover have "exchange_step 42 ?x6 ?x7"
    using close [of ?x6 "[1]" 42] by (simp add: exchange_step_def)
  moreover have "exchange_step 42 ?x7 (exchange_end ?bs)"
    using hang_up [of ?x7] by (simp add: exchange_step_def exchange_start_def exchange_end_def)
  ultimately have "(exchange_step 42 ^^ Suc (Suc (Suc (Suc (Suc (Suc (Suc 1))))))) exchange_start (exchange_end ?bs)"
    by (blast intro: relpowp_Suc_I)
  moreover have "Suc (Suc (Suc (Suc (Suc (Suc (Suc 1)))))) = (8 :: nat)" by simp
  ultimately show ?thesis by (simp only:)
qed


text \<open>
  The answers of the socket are those the code sees. When both have returned, the code of the app, run on
  what its \<open>write\<close> and \<open>read\<close> returned, has the result the handler answered, and \<open>False\<close> when it did not answer.
\<close>

theorem exchange_runs_app:
  fixes E :: env
  assumes "(exchange_step pid ^^ n) exchange_start x" and "app_at x = A_returned (Some got)"
    and "companion_at x = C_returned" and "f \<noteq> no_fd"
  defines "E' \<equiv> E\<lparr>env_getpid := (\<lambda>h. pid), env_write := (\<lambda>h f bs. word_of_nat (sent x)),
    env_read := (\<lambda>h f n. Some got)\<rparr>"
  shows "fst (run_state (ask_companion E' f) s) = (\<exists>b. replied x = Some (bytes_of_int pid, b) \<and> b \<noteq> 0)"
proof -
  have "exchange_ok pid C_returned x"
    using exchange_run_inv [OF assms(1)] assms(3) by (simp add: exchange_inv_def)
  moreover have "word_of_nat k \<noteq> (4 :: c_int)" if "k < 4" for k
  proof -
    have "k \<in> {0, 1, 2, 3}" using that by auto
    then show ?thesis by auto
  qed
  ultimately show ?thesis
    using assms(2,4)
    by (auto simp: E'_def ask_companion_def companion_request_def run_simps)
qed

theorem exchange_runs_app_witness:
  "fst (run_state (ask_companion (calm_env\<lparr>env_getpid := (\<lambda>h. 42),
     env_write := (\<lambda>h f bs. word_of_nat (sent (exchange_end (bytes_of_int 42)))),
     env_read := (\<lambda>h f n. Some [1])\<rparr>) (Fd 9)) fresh_process)"
proof -
  have "app_at (exchange_end (bytes_of_int 42)) = A_returned (Some [1])"
    "companion_at (exchange_end (bytes_of_int 42)) = C_returned" "Fd 9 \<noteq> no_fd"
    by (simp_all add: exchange_end_def)
  from exchange_runs_app [OF whole_exchange this, of calm_env fresh_process] show ?thesis
    by (simp add: exchange_end_def)
qed

end
