(* ===== verification/Remount.thy ===== *)
theory Remount
  imports Removal
begin

text \<open>
  What \<open>doRemount\<close> leaves behind in the mount table: the \<open>errors\<close> option that \<open>/data\<close> shows
  becomes the one its superblock holds, and a second run finds nothing to do.
\<close>

section \<open>What a remount does\<close>

text \<open>
  The documented effect of a remount with an option of the file system: the topmost mount on the path
  names the superblock, and every mount of it shows the new value. Opening a file changes no
  mount.
\<close>

definition set_errors :: "string \<Rightarrow> mountinfo_entry \<Rightarrow> mountinfo_entry" where
  "set_errors v m = m\<lparr>super_options := (super_options m)(''errors'' \<mapsto> v)\<rparr>"

definition remount_kernel :: "(history \<Rightarrow> mountinfo_entry list) \<Rightarrow> bool" where
  "remount_kernel table \<longleftrightarrow>
     (\<forall>h p ok. table (h @ [Ev_open_file p ok]) = table h)
     \<and> (\<forall>h xs e ys fl v. table h = xs @ e # ys \<and> (\<forall>y \<in> set ys. mount_point y \<noteq> mount_point e) \<and> bit fl 5
          \<longrightarrow> table (h @ [Ev_mount None (mount_point e) None fl (Some (''errors='' @ v)) 0]) =
                map (\<lambda>m. if device m = device e then set_errors v m else m) (table h))"

lemma set_errors_same: "super_options m ''errors'' = Some v \<Longrightarrow> set_errors v m = m"
  by (simp add: set_errors_def fun_upd_idem)

abbreviation data_mount :: "mountinfo_entry list \<Rightarrow> mountinfo_entry option" where
  "data_mount \<equiv> find (\<lambda>m. mount_point m = ''/data'')"

lemma data_mount_split:
  assumes "list_all (\<lambda>m. mount_point m \<noteq> ''/data'') xs" and "mount_point e = ''/data''"
  shows "data_mount (xs @ e # ys) = Some e"
  using assms by (induction xs) simp_all

lemma doRemount_run:
  assumes "data_mount (mountinfo_contents E (history s)) = Some e"
    and "super_options e ''errors'' = Some x"
    and "superblock_of E (history s @ [opened_mountinfo E (history s)]) e = Some sb"
  shows "history (snd (run_state (doRemount E) s)) =
     history s @ [opened_mountinfo E (history s), Ev_open_file (mount_source e) True]
     @ (if x = sb then []
        else [Ev_mount None ''/data'' None (remount_flags mount_flags_procfs (mount_options e)) (Some (''errors='' @ sb))
          (env_mount E (history s @ [opened_mountinfo E (history s), Ev_open_file (mount_source e) True])
             None ''/data'' None (remount_flags mount_flags_procfs (mount_options e)) (Some (''errors='' @ sb)))])"
  using assms
  by (auto simp: doRemount_def parseSelfMountinfo_fresh remount_first_find remount_data_def
      getExtErrorsBehavior_def superblock_of_def run_simps Let_def bind_eq_Some_conv split: if_splits)

lemma doRemount_table:
  assumes "remount_kernel table" and "\<And>h fl opts. env_mount E h None ''/data'' None fl opts = 0"
    and "in_sync E table (history s)" and "table (history s) = xs @ e # ys"
    and "list_all (\<lambda>m. mount_point m \<noteq> ''/data'') xs" and "mount_point e = ''/data''"
    and "list_all (\<lambda>m. mount_point m \<noteq> ''/data'') ys"
    and "super_options e ''errors'' = Some x"
    and "superblock_of E (history s @ [opened_mountinfo E (history s)]) e = Some sb"
  shows "data_mount (table (history (snd (run_state (doRemount E) s)))) = Some (set_errors sb e)"
proof -
  let ?h = "history s @ [opened_mountinfo E (history s), Ev_open_file (mount_source e) True]"
  have contents: "mountinfo_contents E (history s) = xs @ e # ys" using assms(3,4) by (simp add: in_sync_def)
  have first: "data_mount (xs @ e # ys) = Some e" using assms(5,6) by (rule data_mount_split)
  have opens: "table (h @ [Ev_open_file p ok]) = table h" for h p ok
    using assms(1) by (simp add: remount_kernel_def)
  have h: "table ?h = xs @ e # ys"
    using opens [of "history s @ [opened_mountinfo E (history s)]" "mount_source e" True]
      opens [of "history s"] assms(4) by simp
  have after: "history (snd (run_state (doRemount E) s)) = ?h
      @ (if x = sb then [] else [Ev_mount None ''/data'' None (remount_flags mount_flags_procfs (mount_options e))
           (Some (''errors='' @ sb)) 0])"
    using doRemount_run [OF _ assms(8,9)] contents first assms(2) by simp
  show ?thesis
  proof (cases "x = sb")
    case True
    then show ?thesis using after h first assms(8) by (simp add: set_errors_same)
  next
    case False
    have top: "\<forall>y \<in> set ys. mount_point y \<noteq> mount_point e"
      using assms(6,7) by (simp add: list_all_iff)
    have "table (?h @ [Ev_mount None (mount_point e) None (remount_flags mount_flags_procfs (mount_options e))
        (Some (''errors='' @ sb)) 0]) = map (\<lambda>m. if device m = device e then set_errors sb m else m) (table ?h)"
      using assms(1) h top remount_flags_remounts unfolding remount_kernel_def by blast
    then have "table (history (snd (run_state (doRemount E) s))) =
        map (\<lambda>m. if device m = device e then set_errors sb m else m) (xs @ e # ys)"
      using after False assms(6) h by simp
    moreover have "list_all (\<lambda>m. mount_point m \<noteq> ''/data'')
        (map (\<lambda>m. if device m = device e then set_errors sb m else m) xs)"
      using assms(5) by (auto simp: list_all_iff set_errors_def)
    ultimately show ?thesis
      using assms(6) data_mount_split [of _ "set_errors sb e"] by (simp add: set_errors_def)
  qed
qed

lemma doRemount_settled:
  assumes "data_mount (mountinfo_contents E (history s)) = Some e"
    and "super_options e ''errors'' = Some sb"
    and "superblock_of E (history s @ [opened_mountinfo E (history s)]) e = Some sb"
  shows "mount_calls (history (snd (run_state (doRemount E) s))) = mount_calls (history s)"
  unfolding doRemount_run [OF assms] by (simp add: mount_calls_Cons)

section \<open>Properties\<close>


text \<open>A device whose \<open>/data\<close> shows another behaviour than its superblock, for the witness.\<close>

definition data_line :: "string \<Rightarrow> mount_line" where
  "data_line v = \<lparr>ml_id = 40, ml_parent = 1, ml_major = 259, ml_minor = 5, ml_root = ''/'', ml_point = ''/data'',
     ml_options = ''rw,nosuid'', ml_optional = [], ml_type = ''ext4'', ml_source = ''/dev/data'',
     ml_super = ''rw,errors='' @ v\<rparr>"

definition data_entry :: "string \<Rightarrow> mountinfo_entry" where
  "data_entry v = mount_line_entry (env_makedev calm_env) (data_line v)"

fun errors_step :: "string \<Rightarrow> event \<Rightarrow> string" where
  "errors_step v (Ev_mount src tgt ty fl (Some opts) r) =
     (if r = 0 \<and> tgt = ''/data'' \<and> bit fl 5 \<and> starts_with opts ''errors='' then drop 7 opts else v)"
| "errors_step v _ = v"

abbreviation shown_errors :: "history \<Rightarrow> string" where
  "shown_errors h \<equiv> foldl errors_step ''panic'' h"

definition data_table :: "history \<Rightarrow> mountinfo_entry list" where
  "data_table h = [set_errors (shown_errors h) (data_entry ''panic'')]"

definition data_superblock :: string where
  "data_superblock = replicate 1080 NUL @ [CHR 0x53, CHR 0xEF, NUL, NUL, CHR 0x01, NUL]"

definition data_env :: env where
  "data_env = calm_env\<lparr>env_file := (\<lambda>h path.
     if path = ''/proc/self/mountinfo'' then Some (render_mountinfo [data_line (shown_errors h)])
     else if path = ''/dev/data'' then Some data_superblock else None)\<rparr>"

lemma data_table_kernel: "remount_kernel data_table"
  unfolding remount_kernel_def
proof (intro conjI allI impI)
  fix h :: history and xs ys :: "mountinfo_entry list" and e :: mountinfo_entry and fl :: u64 and v :: string
  assume "data_table h = xs @ e # ys \<and> (\<forall>y \<in> set ys. mount_point y \<noteq> mount_point e) \<and> bit fl 5"
  then have "e = set_errors (shown_errors h) (data_entry ''panic'')" and "bit fl 5"
    by (auto simp: data_table_def Cons_eq_append_conv)
  then show "data_table (h @ [Ev_mount None (mount_point e) None fl (Some (''errors='' @ v)) 0]) =
      map (\<lambda>m. if device m = device e then set_errors v m else m) (data_table h)"
    by (simp add: data_table_def set_errors_def data_entry_def mount_line_entry_def make_entry_def data_line_def)
qed (simp add: data_table_def)

lemma data_superblock_errors: "superblock_errors data_superblock = Some ''continue''"
  by (simp add: superblock_errors_Some data_superblock_def nth_append)

lemma data_options:
  assumes "v \<in> {''panic'', ''continue''}"
  shows "parseMountOptions (''rw,errors='' @ v) = [''rw'' \<mapsto> [], ''errors'' \<mapsto> v]"
  using assms parse_render_options [of "[(''rw'', None), (''errors'', Some v)]"]
  by (auto simp: wf_option_def option_binding_def)

lemma data_entry_errors:
  assumes "v \<in> {''panic'', ''continue''}"
  shows "data_entry v = set_errors v (data_entry ''panic'')"
  using data_options [OF assms] data_options [of "''panic''"]
  by (simp add: data_entry_def data_line_def mount_line_entry_def make_entry_def set_errors_def)

lemma data_in_sync:
  assumes "shown_errors h \<in> {''panic'', ''continue''}"
  shows "in_sync data_env data_table h"
proof -
  have "list_all (\<lambda>m. wf_mount_line m \<and> is_word (ml_source m)) [data_line (shown_errors h)]"
    using assms by (auto simp: data_line_def wf_mount_line_def is_word_def is_space_def)
  then have "mountinfo_contents data_env h = [data_entry (shown_errors h)]"
    using parse_render_mountinfo
    by (simp add: mountinfo_contents_def data_env_def data_entry_def calm_env_def)
  then show ?thesis
    using data_entry_errors [OF assms] by (simp add: in_sync_def data_table_def)
qed


end
