(* ===== verification/Entries.thy ===== *)
theory Entries
  imports Map_Parser Mountinfo_Parser
begin

text \<open>
  What the parsers of \<open>/proc/self/maps\<close> and \<open>/proc/self/mountinfo\<close> do with lines that are not
  what the kernel is expected to print. A failed extraction makes every later one fail, so an
  entry that is returned has all its fields; a number that does not fit its variable fails.
\<close>

section \<open>Failure sticks\<close>

lemma sentry_ok:
  assumes "run_state sentry st = (True, st')"
  shows "good st" and "failbit st' = failbit st" and "rest st' \<noteq> []" and "\<not> is_space (hd (rest st'))"
  using assms hd_dropWhile [of is_space "rest st"]
  by (auto simp: sentry_def Let_def split: if_splits)

lemma sentry_fails:
  assumes "run_state sentry st = (False, st')"
  shows "failbit st'"
  using assms by (auto simp: sentry_def Let_def split: if_splits)

lemma extract_string_ok:
  assumes "run_state extract_string st = (w, st')" and "\<not> failbit st'"
  shows "is_word w" and "\<not> failbit st"
proof -
  obtain ok u where u: "run_state sentry st = (ok, u)" by fastforce
  show "is_word w"
    using assms u sentry_fails [of st u] sentry_ok [of st u]
    by (cases ok; cases "rest u")
      (auto simp: extract_string_def is_word_def list_all_iff Let_def dest: set_takeWhileD)
  show "\<not> failbit st"
    using assms u sentry_fails [of st u] sentry_ok [of st u]
    by (cases ok) (auto simp: extract_string_def good_def Let_def)
qed

lemma extract_char_ok:
  assumes "run_state extract_char st = (c, st')" and "\<not> failbit st'"
  shows "\<not> failbit st"
proof -
  obtain ok u where "run_state sentry st = (ok, u)" by fastforce
  then show ?thesis
    using assms sentry_fails [of st u] sentry_ok [of st u]
    by (cases ok) (auto simp: extract_char_def good_def)
qed

lemma extract_num_ok:
  assumes "run_state (extract_num store) st = (v, st')" and "\<not> failbit st'"
  shows "\<not> failbit st"
proof -
  obtain ok u where "run_state sentry st = (ok, u)" by fastforce
  then show ?thesis
    using assms sentry_fails [of st u] sentry_ok [of st u]
    by (cases ok) (auto simp: extract_num_def good_def Let_def split: prod.splits)
qed

lemma optional_loop_ok:
  assumes "optional_loop acc st = (s, st')" and "\<not> failbit st'"
  shows "\<not> failbit st"
    and "\<exists>fs. s = acc @ spaced fs \<and> list_all (\<lambda>f. is_word f \<and> f \<noteq> ''-'') fs"
  using assms
proof (induction acc st rule: optional_loop.induct)
  case (1 acc st)
  obtain field u where u: "run_state extract_string st = (field, u)" by fastforce
  { case 1
    then show ?case
      using u extract_string_ok(2) [OF u] "1.IH"(1) [OF u [symmetric]]
      by (subst (asm) optional_loop.simps) (auto split: if_splits)
  next
    case 2
    show ?case
    proof (cases "failbit u \<or> field = ''-''")
      case True
      with 2 u show ?thesis
        by (subst (asm) optional_loop.simps) (auto intro: exI [of _ "[]"])
    next
      case False
      then have "optional_loop (acc @ '' '' @ field) u = (s, st')"
        using 2(1) u by (subst (asm) optional_loop.simps) simp
      then obtain fs where "s = (acc @ '' '' @ field) @ spaced fs"
        and "list_all (\<lambda>f. is_word f \<and> f \<noteq> ''-'') fs"
        using "1.IH"(2) [OF u [symmetric] False] 2(2) by blast
      then show ?thesis
        using False extract_string_ok(1) [OF u] by (intro exI [of _ "field # fs"]) simp
    qed }
qed

section \<open>What an entry looks like\<close>

definition wf_mountinfo_entry :: "mountinfo_entry \<Rightarrow> bool" where
  "wf_mountinfo_entry e \<longleftrightarrow>
     list_all is_word [root e, mount_point e, filesystem_type e, mount_source e]
     \<and> (\<exists>fs. optional_fields e = spaced fs \<and> list_all (\<lambda>f. is_word f \<and> f \<noteq> ''-'') fs)"

definition wf_map_entry :: "'p map_entry \<Rightarrow> bool" where
  "wf_map_entry e \<longleftrightarrow> is_word (perms e) \<and> newline \<notin> set (pathname e)
     \<and> (pathname e \<noteq> [] \<longrightarrow> \<not> is_space (hd (pathname e)))"

lemma parse_mountinfo_line_wf:
  assumes "parse_mountinfo_line mk line = Some e"
  shows "wf_mountinfo_entry e"
  using assms
  by (clarsimp simp: parse_mountinfo_line_def wf_mountinfo_entry_def make_entry_def
      split: prod.splits if_splits)
    (metis append_Nil extract_string_ok optional_loop_ok)

lemma hd_takeWhile_same: "takeWhile P xs \<noteq> [] \<Longrightarrow> hd (takeWhile P xs) = hd xs"
  by (cases xs) (auto split: if_splits)

lemma run_path:
  assumes "run_state ws st = (u, t)" and "run_state (getline newline) t = (p, t')"
  shows "newline \<notin> set p" and "p \<noteq> [] \<longrightarrow> \<not> is_space (hd p)"
proof -
  define r where "r = dropWhile is_space (rest st)"
  have p: "p = [] \<or> p = takeWhile (\<lambda>c. c \<noteq> newline) r"
    using assms by (auto simp: ws_def getline_def Let_def good_def r_def split: if_splits list.splits)
  then show "newline \<notin> set p" by (auto dest: set_takeWhileD)
  show "p \<noteq> [] \<longrightarrow> \<not> is_space (hd p)"
    using p hd_dropWhile [of is_space "rest st"] hd_takeWhile_same [of _ r]
    by (cases "r = []") (auto simp: r_def)
qed

lemma parse_map_line_wf:
  assumes "parse_map_line mk line = Some e"
  shows "wf_map_entry e"
proof -
  have fails: "run_state (set_base b) st = ((), st') \<Longrightarrow> failbit st' = failbit st" for b st st'
    by (auto simp: set_base_def)
  show ?thesis
    using assms
    by (clarsimp simp: parse_map_line_def wf_map_entry_def make_map_entry_def run_path split: prod.splits if_splits)
      (metis extract_string_ok(1) extract_num_ok extract_char_ok fails run_path)
qed

section \<open>Numbers that do not fit\<close>

text \<open>
  A mount line as the kernel prints it with numbers of any size. It is readable when the
  numbers fit in an \<open>int\<close> and the source is not empty.
\<close>

definition wf_mount_text :: "mount_line \<Rightarrow> bool" where
  "wf_mount_text m \<longleftrightarrow>
     list_all is_word [ml_root m, ml_point m, ml_options m, ml_type m, ml_super m]
     \<and> list_all (\<lambda>f. is_word f \<and> f \<noteq> ''-'') (ml_optional m)
     \<and> (ml_source m = [] \<or> is_word (ml_source m))"

definition fits_int :: "nat \<Rightarrow> bool" where
  "fits_int n \<longleftrightarrow> n < 2 ^ 31"

definition readable :: "mount_line \<Rightarrow> bool" where
  "readable m \<longleftrightarrow> list_all fits_int [ml_id m, ml_parent m, ml_major m, ml_minor m] \<and> ml_source m \<noteq> []"

lemma wf_mount_text_split:
  "wf_mount_text m \<and> readable m \<longleftrightarrow> wf_mount_line m \<and> is_word (ml_source m)"
  by (auto simp: wf_mount_text_def readable_def wf_mount_line_def fits_int_def dest: is_word_nonempty)

lemma extract_num_fits:
  assumes "run_state (extract_num store) (stream b (sp @ padded b w n @ t)) = (v, st')" and "\<not> failbit st'"
    and "2 \<le> b" and "b \<le> 16" and "ends_numeral b t" and "sp = [] \<or> sp = '' ''"
  shows "snd (store (Some (int n)))" and "st' = (stream b t)\<lparr>eofbit := (t = [])\<rparr>"
proof -
  have "is_word (padded b w n)" using assms(3,4) is_numeral_padded is_numeral_word by blast
  then have "run_state sentry (stream b (sp @ padded b w n @ t)) = (True, stream b (padded b w n @ t))"
    using assms(6) by (subst sentry_good [where sp = sp]) (auto simp: hd_append)
  moreover have "num_get b (padded b w n @ t) = (Some (int n), t)"
    using assms(3-5) by (simp add: num_get_numeral padded_numeral)
  ultimately show "snd (store (Some (int n)))" and "st' = (stream b t)\<lparr>eofbit := (t = [])\<rparr>"
    using assms(1,2) by (auto simp: extract_num_def split: prod.splits)
qed

lemma store_int_fits: "snd (store_int (Some (int n))) \<longleftrightarrow> fits_int n"
  by (auto simp: store_int_def fits_int_def)

lemma store_word_fits: "snd (store_word (Some (int n)) :: 'w::len word \<times> bool) \<longleftrightarrow> n < 2 ^ LENGTH('w)"
proof -
  have "int n \<ge> 2 ^ LENGTH('w) \<longleftrightarrow> n \<ge> 2 ^ LENGTH('w)" by (metis of_nat_le_iff of_nat_numeral of_nat_power)
  then show ?thesis by (simp add: store_word_def not_le)
qed

lemmas extract_int_fits = extract_num_fits [where store = store_int, unfolded store_int_fits]

lemmas extract_word_fits = extract_num_fits [where store = store_word, unfolded store_word_fits]

text \<open>If the four numbers of a line are extracted without failure, they all fit.\<close>

lemma parse_mount_line_fits:
  assumes "parse_mountinfo_line mk (render_mount_line m) = Some e"
  shows "list_all fits_int [ml_id m, ml_parent m, ml_major m, ml_minor m]"
proof -
  define t4 where "t4 = '' '' @ ml_root m @ '' '' @ ml_point m @ '' '' @ ml_options m
     @ spaced (ml_optional m) @ '' - '' @ ml_type m @ '' '' @ ml_source m @ '' '' @ ml_super m"
  define t2 where "t2 = '' '' @ padded 10 1 (ml_major m) @ '':'' @ padded 10 1 (ml_minor m) @ t4"
  have line: "istringstream (render_mount_line m) =
      stream 10 ([] @ padded 10 1 (ml_id m) @ '' '' @ padded 10 1 (ml_parent m) @ t2)"
    by (simp add: render_mount_line_def istringstream_def t2_def t4_def)
  obtain i1 s1 i2 s2 i3 s3 c s4 i5 s5
    where r1: "run_state extract_int (istringstream (render_mount_line m)) = (i1, s1)"
      and r2: "run_state extract_int s1 = (i2, s2)" and r3: "run_state extract_int s2 = (i3, s3)"
      and r4: "run_state extract_char s3 = (c, s4)" and r5: "run_state extract_int s4 = (i5, s5)"
      and "\<not> failbit s5"
    using assms
    by (clarsimp simp: parse_mountinfo_line_def split: prod.splits if_splits)
      (metis extract_string_ok(2) optional_loop_ok(1))
  then have ok: "\<not> failbit s1" "\<not> failbit s2" "\<not> failbit s3" "\<not> failbit s5"
    using extract_num_ok extract_char_ok by metis+
  note fits = extract_int_fits [where b = 10 and w = 1]
  have s1: "fits_int (ml_id m)" "s1 = stream 10 ('' '' @ padded 10 1 (ml_parent m) @ t2)"
    using fits [OF r1 [unfolded line]] ok by simp_all
  have s2: "fits_int (ml_parent m)" "s2 = stream 10 t2"
    using fits [OF r2 [unfolded s1]] ok by (simp_all add: t2_def)
  have s3: "fits_int (ml_major m)" "s3 = stream 10 ('':'' @ padded 10 1 (ml_minor m) @ t4)"
    using fits [OF r3 [unfolded s2 t2_def]] ok by simp_all
  have "s4 = stream 10 (padded 10 1 (ml_minor m) @ t4)"
    using r4 by (simp add: s3 run_char)
  then have "fits_int (ml_minor m)"
    using fits [where sp = "[]" and n = "ml_minor m" and t = t4] r5 ok by (simp add: t4_def)
  with s1 s2 s3 show ?thesis by simp
qed

lemma parse_mount_text:
  assumes "wf_mount_text m"
  shows "parse_mountinfo_line mk (render_mount_line m) =
     (if readable m then Some (mount_line_entry mk m) else None)"
proof (cases "list_all fits_int [ml_id m, ml_parent m, ml_major m, ml_minor m]")
  case True
  then have "wf_mount_line m"
    using assms by (auto simp: wf_mount_text_def wf_mount_line_def fits_int_def)
  then show ?thesis
    using True assms parse_empty_source [of m mk] parse_render_mount_line [of m mk]
    by (auto simp: readable_def wf_mount_text_def)
next
  case False
  then have "parse_mountinfo_line mk (render_mount_line m) = None"
    using parse_mount_line_fits by fastforce
  with False show ?thesis by (auto simp: readable_def)
qed

text \<open>The same for a line of \<open>maps\<close>, whose variables have the width of a pointer.\<close>

lemma parse_map_line_fits:
  fixes mk :: "c_int \<Rightarrow> c_int \<Rightarrow> 'w::len word"
  assumes "parse_map_line mk (render_map_line m) = Some e" and "is_word (ln_perms m)"
  shows "map_line_fits LENGTH('w) m"
proof -
  define t7 where "t7 = '' '' @ replicate (ln_blanks m) (CHR '' '') @ ln_path m"
  define t5 where "t5 = '' '' @ padded 16 2 (ln_major m) @ '':'' @ padded 16 2 (ln_minor m) @ '' ''
     @ padded 10 1 (ln_inode m) @ t7"
  define t2 where "t2 = '' '' @ ln_perms m @ '' '' @ padded 16 8 (ln_offset m) @ t5"
  have line: "run_state (set_base 16) (istringstream (render_map_line m)) =
      ((), stream 16 ([] @ padded 16 8 (ln_start m) @ ''-'' @ padded 16 8 (ln_end m) @ t2))"
    by (simp add: render_map_line_def istringstream_def set_base_def t2_def t5_def t7_def)
  obtain a1 s1 c1 s2 a2 s3 w s4 a3 s5 i1 s6 c2 s7 i2 s8 u s9 a4 s10
    where r1: "run_state (extract_word :: 'w word extractor)
        (snd (run_state (set_base 16) (istringstream (render_map_line m)))) = (a1, s1)"
      and r2: "run_state extract_char s1 = (c1, s2)"
      and r3: "run_state (extract_word :: 'w word extractor) s2 = (a2, s3)"
      and r4: "run_state extract_string s3 = (w, s4)"
      and r5: "run_state (extract_word :: 'w word extractor) s4 = (a3, s5)"
      and r6: "run_state extract_int s5 = (i1, s6)" and r7: "run_state extract_char s6 = (c2, s7)"
      and r8: "run_state extract_int s7 = (i2, s8)" and r9: "run_state (set_base 10) s8 = (u, s9)"
      and r10: "run_state (extract_word :: 'w word extractor) s9 = (a4, s10)" and "\<not> failbit s10"
    using assms(1) by (clarsimp simp: parse_map_line_def split: prod.splits if_splits)
  have base: "s9 = s8\<lparr>basefield := 10\<rparr>" using r9 by (simp add: set_base_def)
  have f9: "\<not> failbit s9" using extract_num_ok [OF r10 \<open>\<not> failbit s10\<close>] .
  then have f8: "\<not> failbit s8" by (simp add: base)
  have f7: "\<not> failbit s7" using extract_num_ok [OF r8 f8] .
  have f6: "\<not> failbit s6" using extract_char_ok [OF r7 f7] .
  have f5: "\<not> failbit s5" using extract_num_ok [OF r6 f6] .
  have f4: "\<not> failbit s4" using extract_num_ok [OF r5 f5] .
  have f3: "\<not> failbit s3" using extract_string_ok(2) [OF r4 f4] .
  have f2: "\<not> failbit s2" using extract_num_ok [OF r3 f3] .
  have f1: "\<not> failbit s1" using extract_char_ok [OF r2 f2] .
  note fits = extract_word_fits [where b = 16]
  have "run_state (extract_word :: 'w word extractor)
      (stream 16 ([] @ padded 16 8 (ln_start m) @ ''-'' @ padded 16 8 (ln_end m) @ t2)) = (a1, s1)"
    using r1 by (simp only: line snd_conv)
  note s1 = fits [OF this f1]
  have s1: "ln_start m < 2 ^ LENGTH('w)" "s1 = stream 16 (''-'' @ padded 16 8 (ln_end m) @ t2)"
    using s1 by simp_all
  have "s2 = stream 16 ([] @ padded 16 8 (ln_end m) @ t2)" using r2 by (simp add: s1 run_char)
  note s3 = fits [OF r3 [unfolded this] f3]
  have s3: "ln_end m < 2 ^ LENGTH('w)" "s3 = stream 16 t2" using s3 by (simp_all add: t2_def)
  have "s4 = stream 16 ('' '' @ padded 16 8 (ln_offset m) @ t5)"
    using r4 assms(2) by (simp add: s3 t2_def run_simps)
  note s5 = fits [OF r5 [unfolded this] f5]
  have s5: "ln_offset m < 2 ^ LENGTH('w)" "s5 = stream 16 t5" using s5 by (simp_all add: t5_def)
  note fits_int = extract_int_fits [where b = 16]
  note s6 = fits_int [OF r6 [unfolded s5 t5_def] f6]
  have s6: "fits_int (ln_major m)" "s6 = stream 16 ('':'' @ padded 16 2 (ln_minor m) @ '' '' @ padded 10 1 (ln_inode m) @ t7)"
    using s6 by simp_all
  have "s7 = stream 16 ([] @ padded 16 2 (ln_minor m) @ '' '' @ padded 10 1 (ln_inode m) @ t7)"
    using r7 by (simp add: s6 run_char)
  note s8 = fits_int [OF r8 [unfolded this] f8]
  have s8: "fits_int (ln_minor m)" "s8 = stream 16 ('' '' @ padded 10 1 (ln_inode m) @ t7)"
    using s8 by simp_all
  have "s9 = stream 10 ('' '' @ padded 10 1 (ln_inode m) @ t7)" by (simp add: base s8)
  note s10 = extract_word_fits [OF r10 [unfolded this] \<open>\<not> failbit s10\<close>]
  have "ln_inode m < 2 ^ LENGTH('w)" using s10(1) by (simp add: t7_def)
  then show ?thesis
    using s1 s3 s5 s6 s8 by (simp add: map_line_fits_def fits_int_def)
qed

lemma parse_map_text:
  fixes mk :: "c_int \<Rightarrow> c_int \<Rightarrow> 'w::len word"
  assumes "wf_map_line m"
  shows "parse_map_line mk (render_map_line m) =
     (if map_line_fits LENGTH('w) m then Some (map_line_entry mk m) else None)"
  using assms parse_render_map_line [of m mk] parse_map_line_fits [of mk m]
  by (cases "parse_map_line mk (render_map_line m)") (auto simp: wf_map_line_def)

lemma render_mount_text_no_newline:
  assumes "wf_mount_text m"
  shows "newline \<notin> set (render_mount_line m)"
proof -
  have "newline \<notin> set (spaced (ml_optional m))"
    using assms by (intro spaced_no_newline) (auto simp: wf_mount_text_def list_all_iff)
  then show ?thesis
    using assms by (auto simp: render_mount_line_def wf_mount_text_def padded_no_newline is_word_no_newline)
qed

section \<open>Properties\<close>

text \<open>
  C25: every entry is well formed. Whatever the two files hold, an entry that is read from them
  has no empty field and no blank in a field: the root, the mount point, the type and the source
  of a mount and the permissions of a mapping are words, the optional fields are words other
  than a dash, and a path has no newline in it and no blank in front. In particular
  \<open>umount2\<close> is never given an empty path.
\<close>

theorem entries_well_formed:
  "list_all wf_mountinfo_entry (parse_mountinfo mk mounts) \<and> list_all wf_map_entry (parse_maps mk maps)"
  using parse_mountinfo_line_wf parse_map_line_wf
  by (fastforce simp: list_all_iff mountinfo_file.parse_complete maps_file.parse_complete)

text \<open>
  C26: what is read of a file of mounts. Of the lines the kernel prints, with numbers of any size
  and with empty sources, exactly those are read whose four numbers fit in an \<open>int\<close> and whose
  source is not empty; a line that is dropped takes nothing else with it, and no number
  wraps around.
\<close>

theorem mountinfo_reads_readable:
  assumes "list_all wf_mount_text ms"
  shows "parse_mountinfo mk (render_mountinfo ms) = map (mount_line_entry mk) (filter readable ms)"
proof -
  note step = mountinfo_file.parse_line_step [OF render_mount_text_no_newline]
  show ?thesis
    using assms by (induction ms) (auto simp: render_mountinfo_def step parse_mount_text)
qed

definition odd_mount :: "nat \<Rightarrow> nat \<Rightarrow> string \<Rightarrow> mount_line" where
  "odd_mount n minor src = \<lparr>ml_id = n, ml_parent = 20, ml_major = 0, ml_minor = minor, ml_root = ''/'',
     ml_point = ''/data/adb/x'', ml_options = ''rw'', ml_optional = [], ml_type = ''tmpfs'', ml_source = src,
     ml_super = ''rw''\<rparr>"

theorem mountinfo_reads_readable_witness:
  "map mount_id (parse_mountinfo (\<lambda>a b. ucast a) (render_mountinfo
     [odd_mount 30 7 ''magisk'', odd_mount 31 (2 ^ 31) ''magisk'', odd_mount 32 7 [], odd_mount (2 ^ 32 + 5) 7 ''x'',
      odd_mount (2 ^ 31 - 1) 7 ''tmpfs''])) = [30, 2147483647]"
  by (subst mountinfo_reads_readable)
    (simp_all add: odd_mount_def wf_mount_text_def readable_def fits_int_def is_word_def is_space_def
      mount_line_entry_def make_entry_def)

text \<open>
  C27: what is read of a file of mappings, in a process with pointers of any width. Of the lines the kernel
  prints, with numbers of any size, exactly those are read whose addresses, offset and inode fit
  in a pointer and whose device numbers fit in an \<open>int\<close>. A 64-bit process reads every line; a 32-bit
  process misses a library whose inode has more than 32 bits.
\<close>

theorem maps_reads_fitting:
  fixes mk :: "c_int \<Rightarrow> c_int \<Rightarrow> 'w::len word"
  assumes "list_all wf_map_line ms"
  shows "parse_maps mk (render_maps ms) = map (map_line_entry mk) (filter (map_line_fits LENGTH('w)) ms)"
proof -
  note step = maps_file.parse_line_step [OF render_map_line_no_newline]
  show ?thesis
    using assms by (induction ms) (auto simp: render_maps_def step parse_map_text)
qed

definition narrow_maps :: "map_line list" where
  "narrow_maps =
     [\<lparr>ln_start = 0xf0000000, ln_end = 0xf0100000, ln_perms = ''r-xp'', ln_offset = 0, ln_major = 7,
        ln_minor = 88, ln_inode = 2 ^ 32 + 1022, ln_blanks = 4, ln_path = ''/system/lib/libandroid_runtime.so''\<rparr>,
      \<lparr>ln_start = 0xf0200000, ln_end = 0xf0210000, ln_perms = ''r-xp'', ln_offset = 0, ln_major = 7,
        ln_minor = 88, ln_inode = 1021, ln_blanks = 4, ln_path = ''/system/lib/libnativebridge.so''\<rparr>]"

theorem maps_reads_fitting_witness:
  "map pathname (parse_maps (\<lambda>a b. ucast a :: 32 word) (render_maps narrow_maps)) = [''/system/lib/libnativebridge.so'']
   \<and> length (parse_maps (\<lambda>a b. ucast a :: 64 word) (render_maps narrow_maps)) = 2"
proof -
  have wf: "list_all wf_map_line narrow_maps"
    by (simp add: narrow_maps_def wf_map_line_def is_word_def is_space_def)
  show ?thesis
    unfolding maps_reads_fitting [OF wf]
    by (simp add: narrow_maps_def map_line_fits_def map_line_entry_def make_map_entry_def)
qed

end
