(* ===== verification/Closure.thy ===== *)
theory Closure
  imports Main_Module
begin

text \<open>
  The storage of \<open>callbackFunction\<close>. A \<open>std::function\<close> owns the closure it was assigned; the next
  assignment destroys it. The callback of \<open>main.cpp\<close> assigns to the function it runs from and
  reads the descriptor it captured afterwards. Here closures are objects in an explicit store; in
  the other theories the callback uses the captured value itself.
\<close>

section \<open>Closures in a store\<close>

datatype closure = Unused | Live callback | Destroyed callback

record closures =
  target :: nat                  \<comment> \<open>the object \<open>callbackFunction\<close> owns\<close>
  objects :: "nat \<Rightarrow> closure"
  next_object :: nat

text \<open>\<open>callbackFunction = lambda;\<close>: a new object, and the end of the old one.\<close>

fun destroy :: "closure \<Rightarrow> closure" where
  "destroy (Live cb) = Destroyed cb"
| "destroy cl = cl"

definition assign_target :: "callback \<Rightarrow> closures \<Rightarrow> closures" where
  "assign_target cb c = c\<lparr>
     objects := (objects c)(target c := destroy (objects c (target c)), next_object c := Live cb),
     target := next_object c, next_object := next_object c + 1\<rparr>"

definition assign_function :: "callback \<Rightarrow> (closures \<times> proc, unit) state" where
  "assign_function cb = modify (\<lambda>(c, s). (assign_target cb c, s\<lparr>callbackFunction := cb\<rparr>))"

text \<open>
  Reading the captured descriptor through the address of the closure. For an object that was
  destroyed the language gives no value; \<open>leftover\<close> is what the memory holds by then.
\<close>

definition read_capture :: "(fd \<Rightarrow> fd) \<Rightarrow> nat \<Rightarrow> (closures \<times> proc, fd) state" where
  "read_capture leftover self = gets (\<lambda>(c, s).
     case objects c self of
       Live (Hide_callback f) \<Rightarrow> f
     | Destroyed (Hide_callback f) \<Rightarrow> leftover f
     | _ \<Rightarrow> no_fd)"

text \<open>A call that does not touch the store.\<close>

definition in_proc :: "(proc, 'a) state \<Rightarrow> (closures \<times> proc, 'a) state" where
  "in_proc m = State (\<lambda>(c, s). case run_state m s of (a, t) \<Rightarrow> (a, (c, t)))"

definition hide_lambda :: "env \<Rightarrow> (fd \<Rightarrow> fd) \<Rightarrow> nat \<Rightarrow> (closures \<times> proc, unit option) state" where
  "hide_lambda E leftover self = do {
     assign_function Empty_callback;
     srr \<leftarrow> in_proc (ScopedRegularReopener E);
     ns \<leftarrow> in_proc (new_mount_ns E);
     case ns of
       None \<Rightarrow> State_Monad.return None
     | Some ok \<Rightarrow>
         if \<not> ok then do {
           in_proc (ScopedRegularReopener_end srr);
           State_Monad.return (Some ()) }
         else do {
           f \<leftarrow> read_capture leftover self;
           result \<leftarrow> in_proc (ask_companion E f);
           (if result then State_Monad.return () else in_proc (doUnmount E));
           in_proc (doHideZygisk E);
           in_proc (ScopedRegularReopener_end srr);
           State_Monad.return (Some ()) } }"

definition call_function :: "env \<Rightarrow> (fd \<Rightarrow> fd) \<Rightarrow> (closures \<times> proc, unit option) state" where
  "call_function E leftover = do {
     self \<leftarrow> gets (target \<circ> fst);
     cl \<leftarrow> gets (\<lambda>(c, s). objects c self);
     case cl of
       Live Empty_callback \<Rightarrow> State_Monad.return (Some ())
     | Live (Hide_callback f) \<Rightarrow> hide_lambda E leftover self
     | _ \<Rightarrow> State_Monad.return None }"

section \<open>What a call does\<close>

text \<open>The function owns a live closure, the one the process state shows.\<close>

definition stored :: "closures \<Rightarrow> proc \<Rightarrow> bool" where
  "stored c s \<longleftrightarrow> target c < next_object c \<and> objects c (target c) = Live (callbackFunction s)"

lemma stored_assigned:
  "target c < next_object c \<Longrightarrow> callbackFunction s = cb \<Longrightarrow> stored (assign_target cb c) s"
  by (simp add: stored_def assign_target_def)

lemma run_in_proc [simp]:
  "run_state (in_proc m) (c, s) = (case run_state m s of (a, t) \<Rightarrow> (a, (c, t)))"
  by (simp add: in_proc_def)

lemma run_assign [simp]:
  "run_state (assign_function cb) (c, s) = ((), (assign_target cb c, s\<lparr>callbackFunction := cb\<rparr>))"
  by (simp add: assign_function_def)

text \<open>The assignment came first: what is read is what the destroyed object left.\<close>

lemma read_after_assignment:
  assumes "stored c s" and "callbackFunction s = Hide_callback f"
  shows "run_state (read_capture leftover (target c)) (assign_target cb c, t) = (leftover f, (assign_target cb c, t))"
  using assms by (simp add: read_capture_def assign_target_def stored_def)

lemma hide_lambda_run:
  assumes "stored c s" and "callbackFunction s = Hide_callback f"
  shows "run_state (hide_lambda E leftover (target c)) (c, s) =
     (case run_state (hide_callback E (leftover f)) s of (r, t) \<Rightarrow> (r, (assign_target Empty_callback c, t)))"
  using read_after_assignment [OF assms]
  by (simp add: hide_lambda_def hide_callback_def split: prod.split option.split)

lemma hide_callback_closes_own:
  assumes "g \<noteq> f"
  shows "emits (\<lambda>e. \<not> closes f e) (hide_callback E g)"
  using assms
  by (auto simp: hide_callback_def new_mount_ns_def call_old_unshare_def sys_mount_def intro!: emits_intros)

section \<open>Properties\<close>

text \<open>
  C23: the captured descriptor is read after its closure is gone. A call of an armed callback runs
  exactly as the callback with the descriptor that the memory of the destroyed closure shows:
  with the one that was captured only if nothing has overwritten it. With any other value the
  connection to the companion is never closed. Either way the function owns a live, empty
  closure afterwards.
\<close>

theorem capture_read_after_destruction:
  assumes "stored c s" and "callbackFunction s = Hide_callback f"
  shows "\<exists>c' r t. run_state (call_function E leftover) (c, s) = (r, (c', t))
     \<and> run_state (hide_callback E (leftover f)) s = (r, t)
     \<and> stored c' t \<and> callbackFunction t = Empty_callback
     \<and> (leftover f \<noteq> f \<longrightarrow> filter (closes f) (history t) = filter (closes f) (history s))"
proof -
  obtain r t where t: "run_state (hide_callback E (leftover f)) s = (r, t)" by fastforce
  then have "callbackFunction t = Empty_callback"
    using hide_callback_statics [of E "leftover f" s] by (simp add: statics_eq)
  moreover have "filter (closes f) (history t) = filter (closes f) (history s)" if ne: "leftover f \<noteq> f"
  proof -
    obtain es where "history t = history s @ es" and "list_all (\<lambda>e. \<not> closes f e) es"
      using hide_callback_closes_own [OF ne] t by (rule emitsD)
    then show ?thesis by (simp add: filter_empty_conv list_all_iff)
  qed
  moreover have "run_state (call_function E leftover) (c, s) = (r, (assign_target Empty_callback c, t))"
    using assms hide_lambda_run [OF assms] t by (simp add: call_function_def stored_def)
  ultimately show ?thesis using t assms(1) stored_assigned by (auto simp: stored_def)
qed

definition one_closure :: closures where
  "one_closure = \<lparr>target = 0, objects = (\<lambda>_. Unused)(0 := Live (Hide_callback (Fd 9))), next_object = 1\<rparr>"

theorem capture_read_after_destruction_witness:
  "\<exists>c' r t. run_state (call_function calm_env (\<lambda>f. Fd 0)) (one_closure, zygote\<lparr>callbackFunction := Hide_callback (Fd 9)\<rparr>) =
       (r, (c', t))
     \<and> filter (closes (Fd 9)) (history t) = []"
proof -
  have "stored one_closure (zygote\<lparr>callbackFunction := Hide_callback (Fd 9)\<rparr>)"
    by (simp add: stored_def one_closure_def)
  from capture_read_after_destruction [OF this, of "Fd 9" calm_env "\<lambda>f. Fd 0"] show ?thesis
    by (auto simp: zygote_def)
qed

end
