(* ===== verification/Unhooking.thy ===== *)
theory Unhooking
  imports Lifecycle
begin

text \<open>
  What is in the PLT of the runtime at the end of the specialization. The module asks Zygisk to
  unload its library (\<open>DLCLOSE_MODULE_LIBRARY\<close>), so no entry may point into it by then:
  \<open>postAppSpecialize\<close> puts the saved functions back, for the mapping it finds in the cached maps.
\<close>

section \<open>The entries of the PLT\<close>

text \<open>
  A registration names an entry by device, inode and symbol; a commit that succeeds stores what
  was registered since the last commit, in order.
\<close>

type_synonym plt_key = "dev_t \<times> ino_t \<times> string"

fun entry_step :: "(plt_key \<times> hook_fn) list \<times> (plt_key \<rightharpoonup> hook_fn) \<Rightarrow> event \<Rightarrow>
    (plt_key \<times> hook_fn) list \<times> (plt_key \<rightharpoonup> hook_fn)" where
  "entry_step (p, t) (Ev_pltHookRegister dev ino symbol fn orig) = (p @ [((dev, ino, symbol), fn)], t)"
| "entry_step (p, t) (Ev_pltHookCommit ok) = ([], if ok then t ++ map_of (rev p) else t)"
| "entry_step pt _ = pt"

definition plt_entries :: "history \<Rightarrow> (plt_key \<times> hook_fn) list \<times> (plt_key \<rightharpoonup> hook_fn)" where
  "plt_entries h = foldl entry_step ([], Map.empty) h"

lemma plt_entries_append [simp]: "plt_entries (h @ es) = foldl entry_step (plt_entries h) es"
  by (simp add: plt_entries_def)

lemma entry_step_other: "\<not> plt_event e \<Longrightarrow> entry_step pt e = pt"
  by (cases pt; cases e) simp_all

lemma entry_step_others: "list_all (\<lambda>e. \<not> plt_event e) es \<Longrightarrow> foldl entry_step pt es = pt"
  by (induction es) (simp_all add: entry_step_other)

text \<open>An entry that points into the library of the module.\<close>

definition own_entry :: "history \<Rightarrow> plt_key \<Rightarrow> hook_fn \<Rightarrow> bool" where
  "own_entry h k fn \<longleftrightarrow> snd (plt_entries h) k = Some fn \<and> hook_slot fn \<noteq> None"

text \<open>
  The documented contract of Zygisk's hooking functions when they work: both are there, a
  commit succeeds and saves the original functions.
\<close>

definition working_api :: "api_table \<Rightarrow> bool" where
  "working_api api \<longleftrightarrow> tbl_pltHookRegister api = Some ()
     \<and> (case tbl_pltHookCommit api of None \<Rightarrow> False | Some c \<Rightarrow> \<forall>h. fst (c h) \<and> (\<forall>sl. snd (c h) sl \<noteq> None))"

lemma working_saves: "working_api api \<Longrightarrow> commits_save api"
  by (auto simp: working_api_def commits_save_def split: option.splits)

section \<open>The effect of one hook\<close>

definition cached_maps :: "env \<Rightarrow> proc \<Rightarrow> u64 map_entry list" where
  "cached_maps E s = (if maps_cache s = [] then maps_contents E (history s) else maps_cache s)"

abbreviation runtime_map_of :: "u64 map_entry list \<Rightarrow> u64 map_entry option" where
  "runtime_map_of \<equiv> find (\<lambda>m. ends_with (pathname m) ''/libandroid_runtime.so'')"

lemma maps_cache_save_slot [simp]: "maps_cache (save_slot saved sl s) = maps_cache s"
  "history (save_slot saved sl s) = history s"
  by (simp_all add: save_slot_def split: option.split slot.split)

lemma fold_save_slot_maps [simp]: "maps_cache (fold (save_slot saved) sls s) = maps_cache s"
  "history (fold (save_slot saved) sls s) = history s"
  by (induction sls arbitrary: s) simp_all

lemma module_hookPLT_entries:
  assumes "working_api api" and "fst (plt_entries (history s)) = []"
    and "run_state (module_hookPLT E api runtime_lib symbol fn orig) s = (ok, t)"
  shows "maps_cache t = cached_maps E s
     \<and> (case runtime_map_of (cached_maps E s) of
          None \<Rightarrow> \<not> ok \<and> plt_entries (history t) = plt_entries (history s)
        | Some m \<Rightarrow> ok \<and> plt_entries (history t) =
            ([], (snd (plt_entries (history s)))((map_device m, inode m, symbol) \<mapsto> fn)))"
proof -
  obtain c where api: "tbl_pltHookRegister api = Some ()" "tbl_pltHookCommit api = Some c" and c: "\<And>h. fst (c h)"
    using assms(1) by (auto simp: working_api_def split: option.splits)
  obtain tbl where tbl: "plt_entries (history s) = ([], tbl)"
    using assms(2) by (cases "plt_entries (history s)") simp
  obtain u where maps: "run_state (parseSelfMaps E True) s = (cached_maps E s, u)" "maps_cache u = cached_maps E s"
    and u: "plt_entries (history u) = ([], tbl)"
    using tbl by (cases "maps_cache s = []") (simp_all add: run_parseSelfMaps cached_maps_def)
  show ?thesis
  proof (cases "runtime_map_of (cached_maps E s)")
    case None
    then have "run_state (hookPLTByName E api runtime_lib symbol fn orig) s = (False, u)"
      by (simp add: hookPLTByName_def register_first_map_find maps(1))
    then show ?thesis using assms(3) None maps(2) tbl u by (simp add: module_hookPLT_def)
  next
    case (Some m)
    let ?e = "Ev_pltHookRegister (map_device m) (inode m) symbol fn orig"
    define v where "v = u\<lparr>history := history u @ [?e],
      plt_pending := (case orig of None \<Rightarrow> plt_pending u | Some sl \<Rightarrow> plt_pending u @ [sl])\<rparr>"
    have "run_state (hookPLTByName E api runtime_lib symbol fn orig) s = (True, v)"
      using Some api by (simp add: hookPLTByName_def register_first_map_find maps(1) Api_pltHookRegister_def v_def)
    then have ok: "ok" and t: "t = (fold (save_slot (snd (c (history v)))) (plt_pending v) v\<lparr>plt_pending := []\<rparr>)
        \<lparr>history := history v @ [Ev_pltHookCommit True]\<rparr>"
      using assms(3) api c by (auto simp: module_hookPLT_def Api_pltHookCommit_def case_prod_beta)
    have "maps_cache t = cached_maps E s" using maps(2) by (simp add: t v_def)
    moreover have "plt_entries (history t) = ([], tbl((map_device m, inode m, symbol) \<mapsto> fn))"
      using u by (simp add: t v_def)
    ultimately show ?thesis using ok Some tbl by simp
  qed
qed

lemma module_hookPLT_slots:
  "slot_value sl s \<noteq> None \<Longrightarrow> slot_value sl (snd (run_state (module_hookPLT E api lib symbol fn orig) s)) \<noteq> None"
proof -
  have maps: "preserves (\<lambda>s. slot_value sl s \<noteq> None) (parseSelfMaps E True)"
    by (simp add: preserves_def run_parseSelfMaps)
  have commit: "preserves (\<lambda>s. slot_value sl s \<noteq> None) (Api_pltHookCommit api)"
    using slot_value_fold_stays by (auto simp: preserves_def Api_pltHookCommit_def case_prod_beta split: option.split)
  have "preserves (\<lambda>s. slot_value sl s \<noteq> None) (Api_pltHookRegister api dev ino symbol fn orig)" for dev ino
    by (auto simp: preserves_def Api_pltHookRegister_def split: option.split)
  with maps commit have "preserves (\<lambda>s. slot_value sl s \<noteq> None) (module_hookPLT E api lib symbol fn orig)"
    by (auto simp: module_hookPLT_def hookPLTByName_def register_first_map_find intro!: preserves_intros)
  then show "slot_value sl s \<noteq> None \<Longrightarrow> ?thesis" by (simp add: preserves_def)
qed

section \<open>Which hooks are in, and where\<close>

fun hook_symbol :: "hook_fn \<Rightarrow> string" where
  "hook_symbol New_unshare = ''unshare''"
| "hook_symbol New_setresuid = ''setresuid''"
| "hook_symbol (Saved p) = []"

text \<open>
  The entry is the one the cached maps lead to, and the function to put back is known.
\<close>

definition restorable :: "proc \<Rightarrow> plt_key \<Rightarrow> hook_fn \<Rightarrow> bool" where
  "restorable s k fn \<longleftrightarrow> (\<exists>m sl. runtime_map_of (maps_cache s) = Some m
     \<and> k = (map_device m, inode m, hook_symbol fn) \<and> hook_slot fn = Some sl \<and> slot_value sl s \<noteq> None)"

definition hooks_in :: "hook_fn set \<Rightarrow> proc \<Rightarrow> bool" where
  "hooks_in F s \<longleftrightarrow> fst (plt_entries (history s)) = []
     \<and> (\<forall>k fn. own_entry (history s) k fn \<longrightarrow> fn \<in> F \<and> restorable s k fn)"

lemma hooks_inD: "hooks_in F s \<Longrightarrow> own_entry (history s) k fn \<Longrightarrow> fn \<in> F \<and> restorable s k fn"
  unfolding hooks_in_def by blast

lemma hooks_inI:
  "fst (plt_entries (history s)) = [] \<Longrightarrow>
     (\<And>k fn. own_entry (history s) k fn \<Longrightarrow> fn \<in> F \<and> restorable s k fn) \<Longrightarrow> hooks_in F s"
  unfolding hooks_in_def by blast

lemma hooks_in_mono: "hooks_in F s \<Longrightarrow> F \<subseteq> G \<Longrightarrow> hooks_in G s"
  by (auto simp: hooks_in_def)

lemma restorable_cached: "restorable s k fn \<Longrightarrow> cached_maps E s = maps_cache s"
  by (auto simp: restorable_def cached_maps_def)

lemma restorable_stays:
  assumes "restorable s k fn" and "maps_cache t = maps_cache s"
    and "\<And>sl. slot_value sl s \<noteq> None \<Longrightarrow> slot_value sl t \<noteq> None"
  shows "restorable t k fn"
  using assms by (auto simp: restorable_def)

text \<open>Installing a hook.\<close>

lemma hooks_in_install:
  assumes "working_api api" and "hooks_in F s" and "hook_slot fn = Some sl"
    and run: "run_state (module_hookPLT E api runtime_lib (hook_symbol fn) fn (Some sl)) s = (ok, t)"
  shows "hooks_in (insert fn F) t"
proof -
  have pend: "fst (plt_entries (history s)) = []" using assms(2) by (simp add: hooks_in_def)
  note effect = module_hookPLT_entries [OF assms(1) pend run]
  have slots: "slot_value sl' t \<noteq> None" if "slot_value sl' s \<noteq> None" for sl'
    using module_hookPLT_slots [OF that] run by (metis snd_conv)
  have own: "fn' \<in> F \<and> restorable s k fn' \<and> restorable t k fn'" if "own_entry (history s) k fn'" for k fn'
    using hooks_inD [OF assms(2) that] restorable_stays [of s k fn' t] restorable_cached [of s k fn' E]
      effect slots by simp
  show ?thesis
  proof (cases "runtime_map_of (cached_maps E s)")
    case None
    then have "plt_entries (history t) = plt_entries (history s)" using effect by simp
    then have "own_entry (history t) k fn' \<longleftrightarrow> own_entry (history s) k fn'" "fst (plt_entries (history t)) = []" for k fn'
      using pend by (simp_all add: own_entry_def)
    then show ?thesis using own by (intro hooks_inI) blast+
  next
    case (Some m)
    then have t: "ok" "plt_entries (history t) =
        ([], (snd (plt_entries (history s)))((map_device m, inode m, hook_symbol fn) \<mapsto> fn))"
      "maps_cache t = cached_maps E s"
      using effect by simp_all
    have "run_state (module_hookPLT E api runtime_lib (hook_symbol fn) fn (Some sl)) s = (True, t)"
      using run t(1) by simp
    then have "slot_value sl t \<noteq> None"
      using module_hookPLT_saves [OF working_saves [OF assms(1)]] by blast
    then have "restorable t (map_device m, inode m, hook_symbol fn) fn"
      using Some t(3) assms(3) by (simp add: restorable_def)
    moreover have "own_entry (history s) k fn'" if "own_entry (history t) k fn'"
      "k \<noteq> (map_device m, inode m, hook_symbol fn)" for k fn'
      using that t(2) by (simp add: own_entry_def)
    moreover have "fn' = fn" if "own_entry (history t) (map_device m, inode m, hook_symbol fn) fn'" for fn'
      using that t(2) by (simp add: own_entry_def)
    ultimately show ?thesis using t(2) own by (intro hooks_inI) (simp, metis insertCI)
  qed
qed

text \<open>Putting a function back.\<close>

lemma hooks_in_restore:
  assumes "working_api api" and "hooks_in (insert fn F) s" and "hook_slot fn \<noteq> None"
    and run: "run_state (module_hookPLT E api runtime_lib (hook_symbol fn) (Saved p) None) s = (ok, t)"
  shows "hooks_in (F - {fn}) t"
proof -
  have pend: "fst (plt_entries (history s)) = []" using assms(2) by (simp add: hooks_in_def)
  note effect = module_hookPLT_entries [OF assms(1) pend run]
  have slots: "slot_value sl' t \<noteq> None" if "slot_value sl' s \<noteq> None" for sl'
    using module_hookPLT_slots [OF that] run by (metis snd_conv)
  have own: "restorable s k fn'" "restorable t k fn'" "fn' \<in> insert fn F" "cached_maps E s = maps_cache s"
    if "own_entry (history s) k fn'" for k fn'
    using hooks_inD [OF assms(2) that] restorable_stays [of s k fn' t] restorable_cached [of s k fn' E]
      effect slots by simp_all
  show ?thesis
  proof (cases "runtime_map_of (cached_maps E s)")
    case None
    then have "\<not> own_entry (history s) k fn'" for k fn'
      using own(1,4) [of k fn'] by (auto simp: restorable_def)
    moreover have "plt_entries (history t) = plt_entries (history s)" using None effect by simp
    then have "own_entry (history t) k fn' \<longleftrightarrow> own_entry (history s) k fn'" "fst (plt_entries (history t)) = []" for k fn'
      using pend by (simp_all add: own_entry_def)
    ultimately show ?thesis by (intro hooks_inI) blast+
  next
    case (Some m)
    let ?key = "(map_device m, inode m, hook_symbol fn)"
    have t: "plt_entries (history t) = ([], (snd (plt_entries (history s)))(?key \<mapsto> Saved p))"
      using Some effect by simp
    have "fn' \<in> F - {fn} \<and> restorable t k fn'" if "own_entry (history t) k fn'" for k fn'
    proof -
      have "k \<noteq> ?key" and s: "own_entry (history s) k fn'"
        using that t by (auto simp: own_entry_def split: if_splits)
      moreover have "k = (map_device m, inode m, hook_symbol fn')"
        using own(1,4) [OF s] Some by (auto simp: restorable_def)
      ultimately show ?thesis using own(2,3) [OF s] by auto
    qed
    then show ?thesis using t by (intro hooks_inI) simp_all
  qed
qed

lemma hooks_in_unsaved:
  assumes "hooks_in (insert fn F) s" and "hook_slot fn = Some sl" and "slot_value sl s = None"
  shows "hooks_in (F - {fn}) s"
  using assms by (fastforce simp: hooks_in_def restorable_def)

section \<open>Over a life\<close>

text \<open>What touches neither the PLT nor a filled cache nor the saved pointers.\<close>

lemma preserves_cache:
  assumes "keeps maps_cache m"
  shows "preserves (\<lambda>s. maps_cache s = c) m"
  using assms by (simp add: preserves_def keeps_def)

lemma hooks_in_preserved:
  assumes "emits (\<lambda>e. \<not> plt_event e) m" and "\<And>sl. preserves (\<lambda>s. slot_value sl s \<noteq> None) m"
    and "\<And>c. c \<noteq> [] \<Longrightarrow> preserves (\<lambda>s. maps_cache s = c) m"
  shows "preserves (hooks_in F) m"
  unfolding preserves_def
proof (intro allI impI)
  fix s
  assume s: "hooks_in F s"
  obtain a t where m: "run_state m s = (a, t)" by fastforce
  obtain es where es: "history t = history s @ es" "list_all (\<lambda>e. \<not> plt_event e) es"
    using assms(1) m by (rule emitsD)
  then have entries: "plt_entries (history t) = plt_entries (history s)" by (simp add: entry_step_others)
  have "restorable t k fn" if "restorable s k fn" for k fn
  proof (rule restorable_stays [OF that])
    have "maps_cache s \<noteq> []" using that by (auto simp: restorable_def)
    then show "maps_cache t = maps_cache s"
      using preservesD [OF assms(3) m] by simp
    show "slot_value sl t \<noteq> None" if "slot_value sl s \<noteq> None" for sl
      using preservesD [OF assms(2) m that] .
  qed
  then show "hooks_in F (snd (run_state m s))"
    using s m entries hooks_inD [OF s] by (intro hooks_inI) (auto simp: hooks_in_def own_entry_def)
qed

lemma preserves_slots:
  assumes "keeps slots m"
  shows "preserves (\<lambda>s. slot_value sl s \<noteq> None) m"
proof -
  have "slot_value sl (snd (run_state m s)) = slot_value sl s" for s
    using assms by (intro slots_value) (simp add: keeps_def)
  then show ?thesis by (simp add: preserves_def)
qed

lemma hooks_in_query [preserves_intros]:
  "preserves (hooks_in F) (Api_setOption api opt)" "preserves (hooks_in F) (Api_getFlags api)"
  "preserves (hooks_in F) (Api_connectCompanion api)" "preserves (hooks_in F) (Api_exemptFd api f)"
  by (auto intro!: hooks_in_preserved preserves_slots preserves_cache emits_intros keeps_intros)

text \<open>The callback reads the maps, but not again when they are cached.\<close>

lemma filled_cache_kept:
  assumes "c \<noteq> []"
  shows "preserves (\<lambda>s. maps_cache s = c) (run_hook E hc)"
proof -
  let ?P = "preserves (\<lambda>s. maps_cache s = c)"
  have maps: "?P (parseSelfMaps E True)"
    using assms by (simp add: preserves_def run_parseSelfMaps)
  have reset: "?P (reset_had_error a b)" for a b
    by (rule preserves_cache) (auto simp: reset_had_error_def intro!: keeps_intros split: option.split)
  have load: "?P (call f ev)" for f :: "history \<Rightarrow> elf_section list option" and ev
    by (rule preserves_cache) (auto intro!: keeps_intros)
  have hide: "?P (doHideZygisk E)"
    by (auto simp: doHideZygisk_def Let_def intro!: preserves_intros maps reset load split: prod.split)
  have ops: "?P (ScopedRegularReopener E)" "?P (new_mount_ns E)" "?P (ScopedRegularReopener_end srr)"
    "?P (ask_companion E f)" "?P (doUnmount E)" "?P (unshare_rest E fl)" "?P (call_old_setresuid E ids)"
    for srr f fl ids
    by (auto intro!: preserves_cache keeps_intros)
  have "?P (hide_callback E f)" for f
    by (auto simp: hide_callback_def intro!: preserves_intros hide ops split: option.split)
  then have "?P (run_callback E)"
    by (auto simp: run_callback_def intro!: preserves_intros split: callback.split)
  then show ?thesis
    by (cases hc) (auto simp: new_unshare_def new_setresuid_def intro!: preserves_intros ops split: option.split)
qed

lemma hooks_in_run_hook: "preserves (hooks_in F) (run_hook E hc)"
  by (rule hooks_in_preserved [OF emits_run_hook_plt preserves_slots [OF keeps_slots_run_hook] filled_cache_kept])

lemma hooks_in_simple:
  "preserves (hooks_in F) (zygisk_module_entry E api)" "preserves (hooks_in F) preServerSpecialize"
  by (auto simp: zygisk_module_entry_onLoad onLoad_def preServerSpecialize_def
      intro!: hooks_in_preserved preserves_slots preserves_cache emits_intros keeps_intros)

lemma hooks_in_callback [preserves_intros]: "preserves (hooks_in F) (modify (callbackFunction_update g))"
  by (auto intro!: hooks_in_preserved preserves_slots preserves_cache emits_intros keeps_intros)

abbreviation both_hooks :: "hook_fn set" where
  "both_hooks \<equiv> {New_unshare, New_setresuid}"

lemma hooks_in_pre:
  assumes "working_api api" and "module_api s = Some api" and "hooks_in {} s"
  shows "hooks_in both_hooks (snd (run_state (preAppSpecialize E args) s))"
proof -
  let ?s = "s\<lparr>history := after_getFlags api (after_setOption api (history s))\<rparr>"
  have "own_entry (history ?s) = own_entry (history s)" "fst (plt_entries (history ?s)) = fst (plt_entries (history s))"
    by (simp_all add: own_entry_def after_getFlags_def after_setOption_def fun_eq_iff)
  then have s: "hooks_in {} ?s" using assms(3) by (simp add: hooks_in_def)
  obtain h1 u where u: "run_state (module_hookPLT E api runtime_lib ''unshare'' New_unshare (Some Slot_unshare)) ?s = (h1, u)"
    by fastforce
  obtain h2 v where v: "run_state (module_hookPLT E api runtime_lib ''setresuid'' New_setresuid (Some Slot_setresuid)) u = (h2, v)"
    by fastforce
  have hu: "hooks_in {New_unshare} u"
    using hooks_in_install [OF assms(1) s, of New_unshare Slot_unshare E h1 u] u by simp
  have hv: "hooks_in both_hooks v"
    using hooks_in_install [OF assms(1) hu, of New_setresuid Slot_setresuid E h2 v] v by (simp add: insert_commute)
  have tail: "preserves (hooks_in both_hooks) (do {
      companionFd \<leftarrow> Api_connectCompanion api;
      exempted \<leftarrow> (if companionFd \<noteq> no_fd then Api_exemptFd api companionFd else State_Monad.return False);
      modify (callbackFunction_update (\<lambda>_. Hide_callback companionFd));
      State_Monad.return (Some ()) })"
    by (auto intro!: preserves_intros)
  have "hooks_in both_hooks ?s" "hooks_in both_hooks u"
    using hooks_in_mono [OF s] hooks_in_mono [OF hu] by simp_all
  moreover have "hooks_in both_hooks (snd (run_state (install_hooks E api) ?s))"
    using calculation u v hv tail by (simp add: install_hooks_def preserves_def)
  ultimately show ?thesis by (simp add: preAppSpecialize_run [OF assms(2)])
qed

lemma hooks_in_post:
  assumes "working_api api" and "module_api s = Some api" and "hooks_in both_hooks s"
  shows "hooks_in {} (snd (run_state (postAppSpecialize E) s))"
proof -
  define u where "u = (case old_unshare s of None \<Rightarrow> s
    | Some f \<Rightarrow> snd (run_state (module_hookPLT E api runtime_lib ''unshare'' (Saved f) None) s))"
  define v where "v = (case old_setresuid u of None \<Rightarrow> u
    | Some f \<Rightarrow> snd (run_state (module_hookPLT E api runtime_lib ''setresuid'' (Saved f) None) u))"
  have u: "hooks_in {New_setresuid} u"
  proof (cases "old_unshare s")
    case None
    then show ?thesis
      using hooks_in_unsaved [OF assms(3), of Slot_unshare] by (simp add: u_def slot_value_def)
  next
    case (Some f)
    then show ?thesis
      using hooks_in_restore [OF assms(1,3), where p = f and E = E] by (simp add: u_def) (metis prod.collapse)
  qed
  have "hooks_in {} v"
  proof (cases "old_setresuid u")
    case None
    then show ?thesis
      using hooks_in_unsaved [OF u, of Slot_setresuid] by (simp add: v_def slot_value_def)
  next
    case (Some f)
    then show ?thesis
      using hooks_in_restore [OF assms(1) u, where p = f and E = E] by (simp add: v_def) (metis prod.collapse)
  qed
  moreover have "snd (run_state (postAppSpecialize E) s) = v"
    unfolding postAppSpecialize_run [OF assms(2)] restore_hooks_def u_def v_def
    by (auto simp: case_prod_beta split: option.split)
  ultimately show ?thesis by simp
qed

fun phase_hooks :: "phase \<Rightarrow> hook_fn set" where
  "phase_hooks Specializing = both_hooks"
| "phase_hooks _ = {}"

lemma hooks_in_step:
  assumes "working_api api" and "no_crash api ph s" and "hooks_in (phase_hooks ph) s"
    and step: "life_step E api (ph, s) (ph', t)"
  shows "ph' = Crashed \<or> hooks_in (phase_hooks ph') t"
  using step
proof cases
  case load
  then show ?thesis using assms(3) preservesD [OF hooks_in_simple(1)] by simp
next
  case server
  then show ?thesis using assms(3) preservesD [OF hooks_in_simple(2)] by (simp add: dispatch)
next
  case server_post
  then show ?thesis using assms(3) by (simp add: dispatch)
next
  case (app args)
  then have "module_api s = Some api" using assms(2) by (simp add: no_crash_def)
  then show ?thesis using app assms(3) hooks_in_pre [OF assms(1), of s E args] by (simp add: dispatch)
next
  case (hook c ret)
  then show ?thesis using assms(3) preservesD [OF hooks_in_run_hook] by simp
next
  case post
  then have "module_api s = Some api" using assms(2) by (simp add: no_crash_def)
  then show ?thesis using post assms(3) hooks_in_post [OF assms(1), of s E] by (simp add: dispatch)
qed simp_all

lemma reachable_hooks_in:
  assumes "working_api api" and "reachable E api (ph, s)"
  shows "hooks_in (phase_hooks ph) s"
proof -
  have "no_crash api ph s \<and> hooks_in (phase_hooks ph) s"
    using assms(2)
  proof (induction rule: reachable_induct)
    case start
    have "reachable E api (Starting, fresh_process)" by (simp add: reachable_def)
    then have "no_crash api Starting fresh_process"
      by (rule reachable_no_crash [OF working_saves [OF assms(1)]])
    moreover have "plt_entries (history fresh_process) = ([], Map.empty)"
      by (simp only: fresh_process_simps plt_entries_def foldl.simps)
    then have "hooks_in (phase_hooks Starting) fresh_process"
      by (intro hooks_inI) (simp_all add: own_entry_def)
    ultimately show ?case ..
  next
    case (step ph s ph' t)
    then have nc: "no_crash api ph s" and hooks: "hooks_in (phase_hooks ph) s" by simp_all
    have "no_crash api ph' t"
      using no_crash_step [OF working_saves [OF assms(1)] nc step(2)] .
    moreover have "ph' \<noteq> Crashed" using calculation unfolding no_crash_def by (rule conjunct1)
    then have "hooks_in (phase_hooks ph') t"
      using hooks_in_step [OF assms(1) nc hooks step(2)] by blast
    ultimately show ?case ..
  qed
  then show ?thesis by simp
qed

section \<open>Properties\<close>

text \<open>
  C9: nothing points into the library when it is unloaded. When Zygisk's hooking works, then in
  every state a life can end in, whatever hooks were called in between and whatever else
  failed, no entry of the PLT holds a hook of the module any more, although the mappings were
  looked up twice, before and after the process was specialized.
\<close>

theorem hooks_removed:
  assumes "working_api api" and "reachable E api (Finished, s)"
  shows "snd (plt_entries (history s)) k \<noteq> Some New_unshare
     \<and> snd (plt_entries (history s)) k \<noteq> Some New_setresuid"
  using hooks_inD [OF reachable_hooks_in [OF assms], of k] by (auto simp: own_entry_def)

definition restored_state :: proc where
  "restored_state = snd (run_state (postAppSpecialize device_env) armed_state)"

lemma reachable_restored: "reachable device_env (calm_api 2) (Finished, restored_state)"
proof -
  have "module_api armed_state = Some (calm_api 2)"
    using reachable_no_crash [OF _ reachable_armed] by (simp add: no_crash_def commits_save_def)
  then obtain t where "run_state (postAppSpecialize device_env) armed_state = (Some (), t)"
    using restore_hooks_some [of device_env "calm_api 2" armed_state]
    by (cases "run_state (postAppSpecialize device_env) armed_state") (simp add: postAppSpecialize_run)
  then have "life_step device_env (calm_api 2) (Specializing, armed_state) (Finished, restored_state)"
    by (intro post) (simp add: dispatch restored_state_def)
  with reachable_armed show ?thesis
    unfolding reachable_def by (rule rtranclp.rtrancl_into_rtrancl)
qed

lemma armed_entry: "snd (plt_entries (history armed_state)) (1880, 1022, ''unshare'') = Some New_unshare"
  unfolding armed_state_def
  by (simp add: preAppSpecialize_run loaded_state_def must_hide_def api_flags_def after_setOption_def
    after_getFlags_def PROCESS_GRANTED_ROOT_def PROCESS_ON_DENYLIST_def app_args_def install_hooks_def
    hook_run save_slot_def plt_entries_def Api_connectCompanion_def Api_exemptFd_def device_maps_def
    sample_maps_def map_line_entry_def make_map_entry_def calm_env_def)

theorem hooks_removed_witness:
  "snd (plt_entries (history armed_state)) (1880, 1022, ''unshare'') = Some New_unshare
   \<and> snd (plt_entries (history restored_state)) (1880, 1022, ''unshare'') \<noteq> Some New_unshare"
proof -
  have "working_api (calm_api 2)" by (simp add: working_api_def)
  from hooks_removed [OF this reachable_restored] have
    "snd (plt_entries (history restored_state)) (1880, 1022, ''unshare'') \<noteq> Some New_unshare" by blast
  then show ?thesis using armed_entry by simp
qed

text \<open>A commit that fails changes no entry.\<close>

lemma failing_hook_entries:
  assumes "tbl_pltHookCommit api = Some c" and "\<And>h. \<not> fst (c h)"
  shows "preserves (\<lambda>s. snd (plt_entries (history s)) k = x) (module_hookPLT E api lib symbol fn orig)"
proof -
  have other: "preserves (\<lambda>s. snd (plt_entries (history s)) k = x) (parseSelfMaps E True)"
    by (simp add: preserves_def run_parseSelfMaps entry_step_other)
  have register: "preserves (\<lambda>s. snd (plt_entries (history s)) k = x) (Api_pltHookRegister api dev ino symbol fn orig)"
    for dev ino
  proof -
    have "snd (entry_step pt (Ev_pltHookRegister dev ino symbol fn orig)) = snd pt" for pt
      by (cases pt) simp
    then show ?thesis by (simp add: preserves_def Api_pltHookRegister_def split: option.split)
  qed
  have "snd (entry_step pt (Ev_pltHookCommit False)) = snd pt" for pt by (cases pt) simp
  then have "preserves (\<lambda>s. snd (plt_entries (history s)) k = x) (Api_pltHookCommit api)"
    using assms by (simp add: preserves_def Api_pltHookCommit_def case_prod_beta)
  with other register show ?thesis
    by (auto simp: module_hookPLT_def hookPLTByName_def register_first_map_find intro!: preserves_intros)
qed



end
