(* ===== verification/Atexit.thy ===== *)
theory Atexit
  imports Prelude
begin

text \<open>
  \<open>atexit.cpp\<close>: the module's own \<open>__cxa_atexit\<close> and \<open>__cxa_finalize\<close>. The heap is explicit:
  the array is a block of cells that are uninitialised until they are written, a block is
  freed at most once, and every access the C++ standard leaves undefined is an error value.
  The mutex is a flag: locking it twice would wait forever. A registered function is a
  parameter: what it does is a list of calls back into the two functions.
\<close>

section \<open>State\<close>

text \<open>The cell of an array of \<open>AtexitEntry\<close>: a null \<open>fn\<close> is a cleared entry.\<close>

datatype cell = Uninit | AtexitEntry u64 u64

datatype block = Allocated "cell list" | Freed

type_synonym entry = "u64 \<times> u64"

record atexit =
  heap :: "block list"
  g_array :: "nat option"             \<comment> \<open>a block, or \<open>nullptr\<close>\<close>
  capacity :: u64
  count :: u64
  locked :: bool                      \<comment> \<open>\<open>g_atexit_mutex\<close>\<close>
  called :: "entry list"              \<comment> \<open>the functions called so far, for the properties\<close>

definition atexit_start :: atexit where
  "atexit_start = \<lparr>heap = [], g_array = None, capacity = 8, count = 0, locked = False, called = []\<rparr>"

datatype fault = Null_dereference | Out_of_bounds | Use_after_free | Double_free
  | Uninitialised_read | Deadlock

datatype stop = Fault fault | Out_of_fuel

type_synonym 'a outcome = "stop + 'a"

definition and_then :: "'a outcome \<Rightarrow> ('a \<Rightarrow> 'b outcome) \<Rightarrow> 'b outcome" where
  "and_then m f = (case m of Inl e \<Rightarrow> Inl e | Inr x \<Rightarrow> f x)"

lemma and_then_simps [simp]: "and_then (Inl e) f = Inl e" "and_then (Inr x) f = f x"
  by (simp_all add: and_then_def)

section \<open>Memory and mutex\<close>

definition atexit_lock :: "atexit \<Rightarrow> atexit outcome" where
  "atexit_lock s = (if locked s then Inl (Fault Deadlock) else Inr (s\<lparr>locked := True\<rparr>))"

definition atexit_unlock :: "atexit \<Rightarrow> atexit" where
  "atexit_unlock s = s\<lparr>locked := False\<rparr>"

text \<open>The block a pointer refers to.\<close>

definition deref :: "atexit \<Rightarrow> (nat \<times> cell list) outcome" where
  "deref s = (case g_array s of
     None \<Rightarrow> Inl (Fault Null_dereference)
   | Some b \<Rightarrow> (case heap s ! b of
       Freed \<Rightarrow> Inl (Fault Use_after_free)
     | Allocated cells \<Rightarrow> Inr (b, cells)))"

definition load_entry :: "atexit \<Rightarrow> u64 \<Rightarrow> entry outcome" where
  "load_entry s i = and_then (deref s) (\<lambda>(b, cells).
     if length cells \<le> unat i then Inl (Fault Out_of_bounds)
     else case cells ! unat i of
       Uninit \<Rightarrow> Inl (Fault Uninitialised_read)
     | AtexitEntry fn arg \<Rightarrow> Inr (fn, arg))"

definition store_entry :: "atexit \<Rightarrow> u64 \<Rightarrow> entry \<Rightarrow> atexit outcome" where
  "store_entry s i e = and_then (deref s) (\<lambda>(b, cells).
     if length cells \<le> unat i then Inl (Fault Out_of_bounds)
     else Inr (s\<lparr>heap := (heap s)[b := Allocated (cells[unat i := AtexitEntry (fst e) (snd e)])]\<rparr>))"

text \<open>
  \<open>malloc\<close> and \<open>realloc\<close> of a number of bytes, 16 of them to an entry; \<open>mem\<close> says when an
  allocation succeeds. A failed \<open>realloc\<close> leaves the old block and returns null.
\<close>

definition entry_bytes :: u64 where "entry_bytes = 16"

definition malloc_entries :: "(nat \<Rightarrow> u64 \<Rightarrow> bool) \<Rightarrow> u64 \<Rightarrow> atexit \<Rightarrow> atexit" where
  "malloc_entries mem bytes s =
     (if mem (length (heap s)) bytes
      then s\<lparr>heap := heap s @ [Allocated (replicate (unat bytes div unat entry_bytes) Uninit)],
             g_array := Some (length (heap s))\<rparr>
      else s\<lparr>g_array := None\<rparr>)"

definition resize :: "nat \<Rightarrow> cell list \<Rightarrow> cell list" where
  "resize n cells = take n cells @ replicate (n - length cells) Uninit"

definition realloc_entries :: "(nat \<Rightarrow> u64 \<Rightarrow> bool) \<Rightarrow> u64 \<Rightarrow> atexit \<Rightarrow> atexit outcome" where
  "realloc_entries mem bytes s =
     (if g_array s = None then Inr (malloc_entries mem bytes s)
      else and_then (deref s) (\<lambda>(b, cells).
        if mem (length (heap s)) bytes
        then Inr (s\<lparr>heap := (heap s)[b := Freed]
                      @ [Allocated (resize (unat bytes div unat entry_bytes) cells)],
                    g_array := Some (length (heap s))\<rparr>)
        else Inr (s\<lparr>g_array := None\<rparr>)))"

definition free_array :: "atexit \<Rightarrow> atexit outcome" where
  "free_array s = (case g_array s of
     None \<Rightarrow> Inr s
   | Some b \<Rightarrow> (case heap s ! b of
       Freed \<Rightarrow> Inl (Fault Double_free)
     | Allocated cells \<Rightarrow> Inr (s\<lparr>heap := (heap s)[b := Freed]\<rparr>)))"

section \<open>The two functions\<close>

text \<open>The new count, the first allocation, and the doubling of the array.\<close>

definition make_room :: "(nat \<Rightarrow> u64 \<Rightarrow> bool) \<Rightarrow> atexit \<Rightarrow> atexit outcome" where
  "make_room mem s =
     (let s = s\<lparr>count := count s + 1\<rparr>;
          s = (if g_array s = None then malloc_entries mem (capacity s * entry_bytes) s else s) in
      if count s > capacity s
      then let s = s\<lparr>capacity := capacity s * 2\<rparr> in
        realloc_entries mem (capacity s * entry_bytes) s
      else Inr s)"

definition cxa_atexit :: "(nat \<Rightarrow> u64 \<Rightarrow> bool) \<Rightarrow> u64 \<Rightarrow> u64 \<Rightarrow> atexit \<Rightarrow> (c_int \<times> atexit) outcome" where
  "cxa_atexit mem func arg s =
     (if func = 0 then Inr (- 1, s)
      else
        and_then (atexit_lock s) (\<lambda>s.
        and_then (make_room mem s) (\<lambda>s.
        and_then (store_entry s (count s - 1) (func, arg)) (\<lambda>s.
        Inr (0, atexit_unlock s)))))"

text \<open>What a registered function may do, given the calls made so far.\<close>

datatype action = Register u64 u64 | Finalize

type_synonym program = "entry list \<Rightarrow> u64 \<Rightarrow> u64 \<Rightarrow> action list"

definition finish :: "atexit \<Rightarrow> atexit outcome" where
  "finish s = and_then (free_array s) (\<lambda>s. Inr (atexit_unlock s))"

text \<open>
  \<open>restart\<close> is the code from the label of that name, \<open>scan\<close> one round of the loop and the
  ones after it. Functions call back without a bound, so all of them take fuel.
\<close>

fun cxa_finalize :: "(nat \<Rightarrow> u64 \<Rightarrow> bool) \<Rightarrow> program \<Rightarrow> nat \<Rightarrow> atexit \<Rightarrow> atexit outcome"
  and restart :: "(nat \<Rightarrow> u64 \<Rightarrow> bool) \<Rightarrow> program \<Rightarrow> nat \<Rightarrow> atexit \<Rightarrow> atexit outcome"
  and scan :: "(nat \<Rightarrow> u64 \<Rightarrow> bool) \<Rightarrow> program \<Rightarrow> nat \<Rightarrow> u64 \<Rightarrow> u64 \<Rightarrow> atexit \<Rightarrow> atexit outcome"
  and run_actions :: "(nat \<Rightarrow> u64 \<Rightarrow> bool) \<Rightarrow> program \<Rightarrow> nat \<Rightarrow> action list \<Rightarrow> atexit \<Rightarrow> atexit outcome"
where
  "cxa_finalize mem body 0 s = Inl Out_of_fuel"
| "cxa_finalize mem body (Suc n) s = and_then (atexit_lock s) (\<lambda>s. restart mem body n s)"
| "restart mem body 0 s = Inl Out_of_fuel"
| "restart mem body (Suc n) s =
     (if count s > 0 then scan mem body n (count s) (count s - 1) s
      else Inr (atexit_unlock s))"
| "scan mem body 0 total0 i s = Inl Out_of_fuel"
| "scan mem body (Suc n) total0 i s =
     and_then (load_entry s i) (\<lambda>entry.
     if fst entry = 0 then (if i = 0 then finish s else scan mem body n total0 (i - 1) s)
     else
       and_then (store_entry s i (0, 0)) (\<lambda>s.
       let s = atexit_unlock s in
       and_then (run_actions mem body n (body (called s) (fst entry) (snd entry))
                   (s\<lparr>called := called s @ [entry]\<rparr>)) (\<lambda>s.
       and_then (atexit_lock s) (\<lambda>s.
       if count s \<noteq> total0 then restart mem body n s
       else if i = 0 then finish s
       else scan mem body n total0 (i - 1) s))))"
| "run_actions mem body 0 acts s = Inl Out_of_fuel"
| "run_actions mem body (Suc n) [] s = Inr s"
| "run_actions mem body (Suc n) (Register f a # acts) s =
     and_then (cxa_atexit mem f a s) (\<lambda>(_, s). run_actions mem body n acts s)"
| "run_actions mem body (Suc n) (Finalize # acts) s =
     and_then (cxa_finalize mem body n s) (\<lambda>s. run_actions mem body n acts s)"

section \<open>The array a state represents\<close>

definition cells_of :: "entry list \<Rightarrow> cell list" where
  "cells_of es = map (\<lambda>e. AtexitEntry (fst e) (snd e)) es"

definition represents :: "atexit \<Rightarrow> entry list \<Rightarrow> bool" where
  "represents s es \<longleftrightarrow>
     unat (count s) = length es \<and> 8 \<le> unat (capacity s) \<and> unat (capacity s) \<le> max 8 (2 * length es)
     \<and> (case g_array s of
          None \<Rightarrow> es = []
        | Some b \<Rightarrow> b < length (heap s)
            \<and> (\<exists>junk. heap s ! b = Allocated (cells_of es @ junk)
                 \<and> length es + length junk = unat (capacity s)))"

abbreviation max_entries :: nat where "max_entries \<equiv> 2 ^ 57"

lemma represents_start: "represents atexit_start []"
  by (simp add: represents_def atexit_start_def)

section \<open>Registration appends\<close>

lemma length_cells_of [simp]: "length (cells_of es) = length es"
  by (simp add: cells_of_def)

lemma cells_of_append [simp]: "cells_of (es @ fs) = cells_of es @ cells_of fs"
  by (simp add: cells_of_def)

lemma cells_of_update: "(cells_of es)[i := AtexitEntry f a] = cells_of (es[i := (f, a)])"
  by (simp add: cells_of_def map_update)

lemma represents_other [simp]:
  "represents (s\<lparr>locked := l\<rparr>) es \<longleftrightarrow> represents s es"
  "represents (s\<lparr>called := c\<rparr>) es \<longleftrightarrow> represents s es"
  by (simp_all add: represents_def split: option.split)

text \<open>Before the entry is stored there is a block with room for it.\<close>

definition roomy :: "atexit \<Rightarrow> entry list \<Rightarrow> bool" where
  "roomy s es \<longleftrightarrow>
     unat (count s) = Suc (length es) \<and> 8 \<le> unat (capacity s)
     \<and> unat (capacity s) \<le> max 8 (2 * Suc (length es))
     \<and> (\<exists>b junk. g_array s = Some b \<and> b < length (heap s)
          \<and> heap s ! b = Allocated (cells_of es @ junk)
          \<and> length es + length junk = unat (capacity s) \<and> junk \<noteq> [])"

lemma roomy_store:
  assumes "roomy s es"
  shows "\<exists>s'. store_entry s (count s - 1) (f, a) = Inr s' \<and> represents s' (es @ [(f, a)])
     \<and> called s' = called s \<and> capacity s' = capacity s"
proof -
  obtain b junk where b: "g_array s = Some b" "b < length (heap s)"
    "heap s ! b = Allocated (cells_of es @ junk)" "length es + length junk = unat (capacity s)"
    "junk \<noteq> []"
    using assms by (auto simp: roomy_def)
  then obtain c junk' where junk: "junk = c # junk'" by (cases junk) auto
  have "count s \<noteq> 0" using assms by (auto simp: roomy_def)
  then have idx: "unat (count s - 1) = length es"
    using assms by (simp add: roomy_def unat_minus_one)
  have "(cells_of es @ junk)[length es := AtexitEntry f a] = cells_of (es @ [(f, a)]) @ junk'"
    by (simp add: junk cells_of_def list_update_append)
  then show ?thesis
    using assms b idx
    by (auto simp: junk store_entry_def deref_def represents_def roomy_def)
qed

lemma unat_plus_one: "unat (w :: u64) < 2 ^ 58 \<Longrightarrow> unat (w + 1) = Suc (unat w)"
  by (simp add: unat_word_ariths)

lemma unat_twice: "unat (w :: u64) < 2 ^ 60 \<Longrightarrow> unat (w * 2) = 2 * unat w"
  by (simp add: unat_word_ariths)

lemma unat_entry_bytes: "unat (w :: u64) < 2 ^ 60 \<Longrightarrow> unat (w * entry_bytes) div unat entry_bytes = unat w"
  by (simp add: unat_word_ariths entry_bytes_def)

lemma make_room_roomy:
  assumes "represents s es" and "length es < max_entries" and "\<And>k n. mem k n"
  shows "\<exists>s'. make_room mem s = Inr s' \<and> roomy s' es \<and> called s' = called s"
proof -
  have count: "unat (count s + 1) = Suc (length es)"
    using assms(1,2) by (simp add: represents_def unat_plus_one)
  show ?thesis
  proof (cases "g_array s")
    case None
    then have "es = []" and "unat (capacity s) = 8"
      using assms(1) by (auto simp: represents_def)
    then show ?thesis
      using None count assms(3)
      by (simp add: make_room_def malloc_entries_def roomy_def word_less_nat_alt unat_entry_bytes
          cells_of_def)
  next
    case (Some b)
    then obtain junk where b: "b < length (heap s)" "heap s ! b = Allocated (cells_of es @ junk)"
      "length es + length junk = unat (capacity s)"
      using assms(1) by (auto simp: represents_def)
    show ?thesis
    proof (cases "count s + 1 > capacity s")
      case False
      then have "junk \<noteq> []" using b(3) count by (auto simp: word_less_nat_alt)
      then show ?thesis
        using Some False b count assms(1)
        by (auto simp: make_room_def roomy_def represents_def)
    next
      case True
      then have "unat (capacity s) < Suc (length es)" by (simp add: word_less_nat_alt count)
      then have "length junk = 0" and cap: "unat (capacity s) = length es"
        using b(3) by linarith+
      moreover have "unat (capacity s * 2) = 2 * length es"
        using cap assms(2) by (simp add: unat_twice)
      moreover from this have "unat (capacity s * 2 * entry_bytes) div unat entry_bytes = 2 * length es"
        using assms(2) by (subst unat_entry_bytes) simp_all
      ultimately show ?thesis
        using Some True b count assms(1,3)
        by (auto simp: make_room_def roomy_def represents_def realloc_entries_def deref_def
            resize_def Let_def nth_append)
    qed
  qed
qed

lemma cxa_atexit_appends:
  assumes "represents s es" and "\<not> locked s" and "length es < max_entries"
    and "\<And>k n. mem k n" and "f \<noteq> 0"
  obtains s' where "cxa_atexit mem f a s = Inr (0, s')" and "represents s' (es @ [(f, a)])"
    and "\<not> locked s'" and "called s' = called s"
proof -
  have "represents (s\<lparr>locked := True\<rparr>) es" using assms(1) by simp
  then obtain s3 where "make_room mem (s\<lparr>locked := True\<rparr>) = Inr s3" and "roomy s3 es"
    and "called s3 = called s"
    using make_room_roomy [where mem = mem, OF _ assms(3,4)] by fastforce
  moreover obtain s4 where "store_entry s3 (count s3 - 1) (f, a) = Inr s4"
    and "represents s4 (es @ [(f, a)])" and "called s4 = called s3"
    using roomy_store [OF \<open>roomy s3 es\<close>] by blast
  ultimately show ?thesis
    using assms(2,5)
    by (intro that [of "atexit_unlock s4"])
      (simp_all add: cxa_atexit_def atexit_lock_def atexit_unlock_def)
qed

section \<open>Fuel\<close>

lemma and_then_cong_fuel:
  assumes "and_then m f \<noteq> Inl Out_of_fuel"
    and "m \<noteq> Inl Out_of_fuel \<Longrightarrow> m' = m" and "\<And>x. f x \<noteq> Inl Out_of_fuel \<Longrightarrow> f' x = f x"
  shows "and_then m' f' = and_then m f"
  using assms by (cases m) (auto simp: and_then_def)

text \<open>A result that is reached does not depend on the fuel.\<close>

lemma enough_fuel:
  "(cxa_finalize mem body n s \<noteq> Inl Out_of_fuel \<longrightarrow> n \<le> m \<longrightarrow>
      cxa_finalize mem body m s = cxa_finalize mem body n s)
   \<and> (restart mem body n s \<noteq> Inl Out_of_fuel \<longrightarrow> n \<le> m \<longrightarrow>
      restart mem body m s = restart mem body n s)
   \<and> (scan mem body n total0 i s \<noteq> Inl Out_of_fuel \<longrightarrow> n \<le> m \<longrightarrow>
      scan mem body m total0 i s = scan mem body n total0 i s)
   \<and> (run_actions mem body n acts s \<noteq> Inl Out_of_fuel \<longrightarrow> n \<le> m \<longrightarrow>
      run_actions mem body m acts s = run_actions mem body n acts s)"
proof (induction n arbitrary: m s total0 i acts)
  case 0
  then show ?case by simp
next
  case (Suc n)
  show ?case
  proof (cases m)
    case 0
    then show ?thesis by simp
  next
    case (Suc k)
    note IH = Suc.IH [where m = k]
    have 1: "cxa_finalize mem body (Suc n) s \<noteq> Inl Out_of_fuel \<Longrightarrow> n \<le> k \<Longrightarrow>
        cxa_finalize mem body (Suc k) s = cxa_finalize mem body (Suc n) s"
      using IH by (auto intro!: and_then_cong_fuel)
    have 2: "restart mem body (Suc n) s \<noteq> Inl Out_of_fuel \<Longrightarrow> n \<le> k \<Longrightarrow>
        restart mem body (Suc k) s = restart mem body (Suc n) s"
      using IH by auto
    have 3: "scan mem body (Suc n) total0 i s \<noteq> Inl Out_of_fuel \<Longrightarrow> n \<le> k \<Longrightarrow>
        scan mem body (Suc k) total0 i s = scan mem body (Suc n) total0 i s"
      using IH by (auto simp: Let_def intro!: and_then_cong_fuel split: if_splits)
    have 4: "run_actions mem body (Suc n) acts s \<noteq> Inl Out_of_fuel \<Longrightarrow> n \<le> k \<Longrightarrow>
        run_actions mem body (Suc k) acts s = run_actions mem body (Suc n) acts s"
      using IH by (cases acts rule: list.exhaust; cases "hd acts")
        (auto intro!: and_then_cong_fuel split: if_splits)
    show ?thesis using 1 2 3 4 Suc by auto
  qed
qed

lemma finalize_fuel: "cxa_finalize mem body n s = r \<Longrightarrow> r \<noteq> Inl Out_of_fuel \<Longrightarrow> n \<le> m \<Longrightarrow>
    cxa_finalize mem body m s = r"
  and restart_fuel: "restart mem body n s = r \<Longrightarrow> r \<noteq> Inl Out_of_fuel \<Longrightarrow> n \<le> m \<Longrightarrow>
    restart mem body m s = r"
  and scan_fuel: "scan mem body n total0 i s = r \<Longrightarrow> r \<noteq> Inl Out_of_fuel \<Longrightarrow> n \<le> m \<Longrightarrow>
    scan mem body m total0 i s = r"
  and run_actions_fuel: "run_actions mem body n acts s = r \<Longrightarrow> r \<noteq> Inl Out_of_fuel \<Longrightarrow> n \<le> m \<Longrightarrow>
    run_actions mem body m acts s = r"
  using enough_fuel by blast+

section \<open>Reading and clearing entries\<close>

lemma load_represents:
  assumes "represents s es" and "unat i < length es"
  shows "load_entry s i = Inr (es ! unat i)"
  using assms
  by (auto simp: represents_def load_entry_def deref_def cells_of_def nth_append
      split: option.splits)

lemma store_represents:
  assumes "represents s es" and "unat i < length es"
  obtains s' where "store_entry s i e = Inr s'" and "represents s' (es[unat i := e])"
    and "locked s' = locked s" and "called s' = called s"
proof -
  obtain b junk where b: "g_array s = Some b" "b < length (heap s)"
    "heap s ! b = Allocated (cells_of es @ junk)" "length es + length junk = unat (capacity s)"
    using assms by (auto simp: represents_def split: option.splits)
  with assms show ?thesis
    by (intro that [of "s\<lparr>heap := (heap s)[b := Allocated (cells_of (es[unat i := e]) @ junk)]\<rparr>"])
      (auto simp: store_entry_def deref_def represents_def list_update_append cells_of_update)
qed

text \<open>The array is gone but \<open>count\<close> and \<open>g_array\<close> still speak of it.\<close>

definition dangling :: "atexit \<Rightarrow> bool" where
  "dangling s \<longleftrightarrow> \<not> locked s \<and> count s > 0
     \<and> (\<exists>b. g_array s = Some b \<and> heap s ! b = Freed)"

lemma finish_represents:
  assumes "represents s es" and "es \<noteq> []"
  obtains s' where "finish s = Inr s'" and "dangling s'" and "called s' = called s"
    and "count s' = count s"
proof -
  obtain b where "g_array s = Some b" "b < length (heap s)" "\<exists>cs. heap s ! b = Allocated cs"
    using assms by (auto simp: represents_def split: option.splits)
  moreover have "count s \<noteq> 0" using assms by (auto simp: represents_def)
  ultimately show ?thesis
    by (intro that [of "atexit_unlock (s\<lparr>heap := (heap s)[b := Freed]\<rparr>)"])
      (auto simp: finish_def free_array_def dangling_def atexit_unlock_def word_gt_0)
qed

section \<open>Finalizing is a stack\<close>

text \<open>
  The specification: a stack of entries; the top one is popped and called, what it registers
  is pushed. A function that calls \<open>__cxa_finalize\<close> is outside the specification.
\<close>

primrec registered :: "action list \<Rightarrow> entry list option" where
  "registered [] = Some []"
| "registered (x # xs) = (case x of
     Finalize \<Rightarrow> None
   | Register f a \<Rightarrow> map_option (\<lambda>r. if f = 0 then r else (f, a) # r) (registered xs))"

fun stack_run :: "program \<Rightarrow> nat \<Rightarrow> entry list \<Rightarrow> entry list \<Rightarrow> entry list option" where
  "stack_run body k [] past = Some past"
| "stack_run body 0 (e # st) past = None"
| "stack_run body (Suc k) (e # st) past =
     Option.bind (registered (body past (fst e) (snd e)))
       (\<lambda>new. stack_run body k (rev new @ st) (past @ [e]))"

lemma stack_run_length:
  "stack_run body k st past = Some all \<Longrightarrow> length past + length st \<le> length all"
  by (induction body k st past rule: stack_run.induct) (fastforce simp: bind_eq_Some_conv)+

text \<open>The entries of the array that were not called yet, the last one first.\<close>

definition live :: "entry list \<Rightarrow> entry list" where
  "live es = rev (filter (\<lambda>e. fst e \<noteq> 0) es)"

lemma live_Nil [simp]: "live [] = []"
  by (simp add: live_def)

lemma live_append [simp]: "live (es @ fs) = live fs @ live es"
  by (simp add: live_def)

lemma registered_live: "registered acts = Some new \<Longrightarrow> live new = rev new"
  by (induction acts arbitrary: new) (auto simp: live_def split: action.splits)

lemma take_Suc_live:
  "i < length es \<Longrightarrow> live (take (Suc i) es) =
     (if fst (es ! i) = 0 then live (take i es) else es ! i # live (take i es))"
  by (simp add: live_def take_Suc_conv_app_nth)

lemma run_registrations:
  assumes "registered acts = Some new" and "represents s es" and "\<not> locked s"
    and "length es + length new < max_entries" and "\<And>k n. mem k n"
  shows "\<exists>s'. run_actions mem body (Suc (length acts)) acts s = Inr s' \<and> represents s' (es @ new)
     \<and> \<not> locked s' \<and> called s' = called s"
  using assms(1-4)
proof (induction acts arbitrary: new s es)
  case Nil
  then show ?case by simp
next
  case (Cons act acts)
  then obtain f a where act: "act = Register f a" by (cases act) simp_all
  show ?case
  proof (cases "f = 0")
    case True
    then show ?thesis using Cons act by (auto simp: cxa_atexit_def)
  next
    case False
    with Cons.prems(1) act obtain new' where new: "registered acts = Some new'" "new = (f, a) # new'"
      by auto
    obtain s' where "cxa_atexit mem f a s = Inr (0, s')" "represents s' (es @ [(f, a)])"
      "\<not> locked s'" "called s' = called s"
      using Cons.prems(2-4) new(2) assms(5) False
      by (auto intro: cxa_atexit_appends [of s es mem f a])
    moreover from this obtain s'' where "run_actions mem body (Suc (length acts)) acts s' = Inr s''"
      "represents s'' ((es @ [(f, a)]) @ new')" "\<not> locked s''" "called s'' = called s'"
      using Cons.IH [OF new(1), of s' "es @ [(f, a)]"] Cons.prems(4) new(2) by auto
    ultimately show ?thesis using act new by auto
  qed
qed

text \<open>Cleared entries are skipped.\<close>

lemma scan_none_live:
  assumes "represents s es" and "unat i < length es" and "live (take (Suc (unat i)) es) = []"
  shows "scan mem body (Suc (unat i)) total0 i s = finish s"
  using assms(2,3)
proof (induction "unat i" arbitrary: i)
  case 0
  then have "i = 0" by (metis unat_0 unsigned_word_eqI)
  with 0 show ?case
    using load_represents [OF assms(1), of i] by (simp add: take_Suc_live split: if_splits)
next
  case (Suc n)
  then have "i \<noteq> 0" by auto
  then have n: "unat (i - 1) = n" using Suc(2) by (simp add: unat_minus_one)
  have cleared: "fst (es ! unat i) = 0" and "live (take (Suc (unat (i - 1))) es) = []"
    using Suc.prems Suc(2) n by (simp_all add: take_Suc_live split: if_splits)
  then have "scan mem body (Suc n) total0 (i - 1) s = finish s"
    using Suc.hyps(1) [of "i - 1"] Suc.prems(1) Suc(2) n by simp
  moreover have "scan mem body (Suc (Suc n)) total0 i s = scan mem body (Suc n) total0 (i - 1) s"
    using cleared \<open>i \<noteq> 0\<close> load_represents [OF assms(1) Suc.prems(1)]
    by (subst scan.simps) (simp del: scan.simps)
  ultimately show ?case using Suc(2) by simp
qed

lemma drop_Suc_live:
  "i < length es \<Longrightarrow> fst (es ! i) = 0 \<Longrightarrow> live (drop i es) = live (drop (Suc i) es)"
  by (simp add: live_def flip: Cons_nth_drop_Suc)

lemma scan_first_live:
  assumes "represents s es" and "unat i < length es" and "live (take (Suc (unat i)) es) = e # st"
  shows "\<exists>j. unat j \<le> unat i \<and> es ! unat j = e \<and> fst e \<noteq> 0 \<and> st = live (take (unat j) es)
    \<and> live (drop (Suc (unat j)) es) = live (drop (Suc (unat i)) es)
    \<and> (\<forall>m. scan mem body (m + (unat i - unat j)) total0 i s = scan mem body m total0 j s)"
  using assms(2,3)
proof (induction "unat i" arbitrary: i)
  case 0
  then have "i = 0" by (metis unat_0 unsigned_word_eqI)
  with 0 show ?case by (intro exI [of _ i]) (auto simp: take_Suc_live split: if_splits)
next
  case (Suc n)
  then have "i \<noteq> 0" by auto
  then have n: "unat (i - 1) = n" using Suc(2) by (simp add: unat_minus_one)
  show ?case
  proof (cases "fst (es ! unat i) = 0")
    case False
    then show ?thesis using Suc.prems by (intro exI [of _ i]) (auto simp: take_Suc_live)
  next
    case True
    then have "live (take (Suc (unat (i - 1))) es) = e # st"
      using Suc.prems Suc(2) n by (simp add: take_Suc_live)
    then obtain j where j: "unat j \<le> n" "es ! unat j = e" "fst e \<noteq> 0"
      "st = live (take (unat j) es)" "live (drop (Suc (unat j)) es) = live (drop (Suc n) es)"
      and fuel: "\<And>m. scan mem body (m + (n - unat j)) total0 (i - 1) s = scan mem body m total0 j s"
      using Suc.hyps(1) [of "i - 1"] Suc.prems(1) Suc(2) n by (metis Suc_lessD)
    have "live (drop (Suc n) es) = live (drop (Suc (unat i)) es)"
      using True Suc.prems(1) Suc(2) by (metis drop_Suc_live)
    moreover have "scan mem body (m + (unat i - unat j)) total0 i s = scan mem body m total0 j s" for m
    proof -
      have "m + (unat i - unat j) = Suc (m + (n - unat j))" using j(1) Suc(2) by simp
      with True \<open>i \<noteq> 0\<close> fuel [of m] show ?thesis
        by (simp add: load_represents [OF assms(1) Suc.prems(1)])
    qed
    ultimately show ?thesis using j Suc(2) by (intro exI [of _ j]) simp
  qed
qed

lemma unat_pred: "w \<noteq> 0 \<Longrightarrow> Suc (unat (w - 1)) = unat (w :: u64)"
  using unat_gt_0 [of w] unat_minus_one [of w] by linarith

lemma represents_count: "represents s es \<Longrightarrow> unat (count s) = length es"
  by (simp add: represents_def)

lemma restart_scan:
  assumes "represents s es" and "es \<noteq> []"
  shows "restart mem body (Suc n) s = scan mem body n (count s) (count s - 1) s"
    and "Suc (unat (count s - 1)) = length es"
proof -
  have "count s \<noteq> 0" using assms by (auto simp: represents_def)
  then show "restart mem body (Suc n) s = scan mem body n (count s) (count s - 1) s"
    and "Suc (unat (count s - 1)) = length es"
    using assms by (simp_all add: word_gt_0 unat_minus_one represents_def)
qed

text \<open>One round that calls a function: the entry is cleared, the function runs unlocked.\<close>

lemma scan_call:
  assumes "represents s es" and "unat j < length es" and "fst (es ! unat j) \<noteq> 0"
  obtains s1 where "represents s1 (es[unat j := (0, 0)])" and "\<not> locked s1"
    and "called s1 = called s @ [es ! unat j]"
    and "\<And>n. scan mem body (Suc n) total0 j s =
      and_then (run_actions mem body n (body (called s) (fst (es ! unat j)) (snd (es ! unat j))) s1)
        (\<lambda>s. and_then (atexit_lock s) (\<lambda>s.
          if count s \<noteq> total0 then restart mem body n s
          else if j = 0 then finish s else scan mem body n total0 (j - 1) s))"
proof -
  obtain s' where s': "store_entry s j (0, 0) = Inr s'" "represents s' (es[unat j := (0, 0)])"
    "locked s' = locked s" "called s' = called s"
    using store_represents [OF assms(1,2)] by blast
  show ?thesis
    by (rule that [of "(atexit_unlock s')\<lparr>called := called s @ [es ! unat j]\<rparr>"])
      (use s' assms(3) load_represents [OF assms(1,2)] in \<open>simp_all add: atexit_unlock_def\<close>)
qed

lemma live_cleared:
  assumes "j < length es" and "live (drop (Suc j) es) = []"
  shows "live (drop j (es[j := (0, 0)])) = []" and "live (es[j := (0, 0)]) = live (take j es)"
  using assms by (simp_all add: upd_conv_take_nth_drop) (simp_all add: live_def)

lemma scan_exhausted:
  assumes "represents s es" and "unat i < length es" and "live (take (Suc (unat i)) es) = []"
  shows "\<exists>n s'. scan mem body n total0 i s = Inr s' \<and> dangling s' \<and> called s' = called s"
proof -
  have "es \<noteq> []" using assms(2) by auto
  then obtain s' where "finish s = Inr s'" "dangling s'" "called s' = called s"
    using finish_represents [OF assms(1)] by blast
  then show ?thesis using scan_none_live [OF assms] by metis
qed

text \<open>
  The loop at index \<open>i\<close> with everything above it cleared runs like the stack of the live
  entries; the bound keeps the array below \<open>max_entries\<close> to the end.
\<close>

lemma scan_stack:
  assumes "\<And>k n. mem k n" and "stack_run body k st past = Some all" and "represents s es"
    and "called s = past" and "unat i < length es" and "live (take (Suc (unat i)) es) = st"
    and "live (drop (Suc (unat i)) es) = []" and "total0 = count s"
    and "length es + length all < max_entries + length past + length st"
  shows "\<exists>n s'. scan mem body n total0 i s = Inr s' \<and> dangling s' \<and> called s' = all"
  using assms(2-9)
proof (induction k arbitrary: st past s es i total0)
  case 0
  then have "st = []" by (cases st) simp_all
  with 0 show ?case using scan_exhausted [of s es i mem body total0] by simp
next
  case (Suc k)
  show ?case
  proof (cases st)
    case Nil
    with Suc.prems show ?thesis using scan_exhausted [of s es i mem body total0] by simp
  next
    case (Cons e st')
    obtain new where new: "registered (body past (fst e) (snd e)) = Some new"
      and run: "stack_run body k (rev new @ st') (past @ [e]) = Some all"
      using Suc.prems(1) Cons by (auto simp: bind_eq_Some_conv)
    obtain j where j: "unat j \<le> unat i" "es ! unat j = e" "fst e \<noteq> 0"
      "st' = live (take (unat j) es)" "live (drop (Suc (unat j)) es) = []"
      and skip: "\<And>m. scan mem body (m + (unat i - unat j)) total0 i s = scan mem body m total0 j s"
      using scan_first_live [OF Suc.prems(2,4) Suc.prems(5) [unfolded Cons], of mem body total0]
        Suc.prems(6) by metis
    have jl: "unat j < length es" using j(1) Suc.prems(4) by simp
    let ?es = "es[unat j := (0, 0)]"
    obtain s1 where s1: "represents s1 ?es" "\<not> locked s1" "called s1 = past @ [e]"
      and step: "\<And>n. scan mem body (Suc n) total0 j s =
        and_then (run_actions mem body n (body past (fst e) (snd e)) s1)
          (\<lambda>s. and_then (atexit_lock s) (\<lambda>s.
            if count s \<noteq> total0 then restart mem body n s
            else if j = 0 then finish s else scan mem body n total0 (j - 1) s))"
      using j(3)
      by (rule scan_call [OF Suc.prems(2) jl, where mem = mem and body = body and ?total0.0 = total0,
            unfolded j(2) Suc.prems(3)]) (rule that)
    have "length past + 1 + length new + length st' \<le> length all"
      using stack_run_length [OF run] by simp
    then have room: "length ?es + length new < max_entries"
      using Suc.prems(8) Cons by simp
    obtain s2 where s2: "run_actions mem body (Suc (length (body past (fst e) (snd e))))
        (body past (fst e) (snd e)) s1 = Inr s2"
      "represents s2 (?es @ new)" "\<not> locked s2" "called s2 = past @ [e]"
      using run_registrations [where mem = mem, OF new s1(1,2) room] assms(1) s1(3) by metis
    let ?s = "s2\<lparr>locked := True\<rparr>"
    have "\<exists>n s'. (if count ?s \<noteq> total0 then restart mem body n ?s
            else if j = 0 then finish ?s else scan mem body n total0 (j - 1) ?s) = Inr s'
         \<and> dangling s' \<and> called s' = all"
    proof (cases "new = []")
      case True
      have "unat (count ?s) = unat total0"
        using s2(2) Suc.prems(2,7) True by (simp add: represents_count)
      then have same: "count ?s = total0" by (rule unsigned_word_eqI)
      show ?thesis
      proof (cases "j = 0")
        case True
        with run j(4) \<open>new = []\<close> have "all = past @ [e]" by simp
        moreover have "represents ?s ?es" "?es \<noteq> []" using s2(2) \<open>new = []\<close> jl by auto
        ultimately show ?thesis
          using finish_represents [of ?s ?es] same True s2(4) by simp metis
      next
        case False
        then have prev: "Suc (unat (j - 1)) = unat j" by (rule unat_pred)
        have "\<exists>n s'. scan mem body n total0 (j - 1) ?s = Inr s' \<and> dangling s' \<and> called s' = all"
        proof (rule Suc.IH)
          show "stack_run body k st' (past @ [e]) = Some all" using run \<open>new = []\<close> by simp
          show "live (drop (Suc (unat (j - 1))) ?es) = []"
            unfolding prev using jl j(5) by (rule live_cleared)
        qed (use s2 prev jl j(4) \<open>new = []\<close> same Suc.prems(8) Cons in auto)
        with same False show ?thesis by auto
      qed
    next
      case False
      have rep: "represents ?s (?es @ new)" "?es @ new \<noteq> []" using s2(2) False by simp_all
      have "unat (count ?s) \<noteq> unat total0"
        using s2(2) Suc.prems(2,7) False by (simp add: represents_count)
      then have grown: "count ?s \<noteq> total0" by auto
      have "live (?es @ new) = rev new @ st'"
        using live_cleared(2) [OF jl j(5)] registered_live [OF new] j(4) by simp
      then have "\<exists>n s'. scan mem body n (count ?s) (count ?s - 1) ?s = Inr s' \<and> dangling s' \<and> called s' = all"
        using Suc.IH [OF run rep(1), of "count ?s - 1" "count ?s"] s2(4)
          restart_scan(2) [OF rep] Suc.prems(8) Cons by simp
      then show ?thesis using grown restart_scan(1) [OF rep] by metis
    qed
    then obtain n s' where n: "(if count ?s \<noteq> total0 then restart mem body n ?s
            else if j = 0 then finish ?s else scan mem body n total0 (j - 1) ?s) = Inr s'"
      "dangling s'" "called s' = all" by blast
    define m where "m = max n (Suc (length (body past (fst e) (snd e))))"
    have "run_actions mem body m (body past (fst e) (snd e)) s1 = Inr s2"
      using s2(1) by (rule run_actions_fuel) (simp_all add: m_def)
    moreover have "(if count ?s \<noteq> total0 then restart mem body m ?s
            else if j = 0 then finish ?s else scan mem body m total0 (j - 1) ?s) = Inr s'"
      using n(1) restart_fuel [where n = n and m = m and s = ?s and mem = mem and body = body]
        scan_fuel [where n = n and m = m and s = ?s and mem = mem and body = body
          and i = "j - 1" and ?total0.0 = total0]
      by (auto simp: m_def split: if_splits)
    ultimately have "scan mem body (Suc m) total0 j s = Inr s'"
      using s2(3) by (simp only: step and_then_simps) (simp add: atexit_lock_def)
    then have "scan mem body (Suc m + (unat i - unat j)) total0 i s = Inr s'"
      by (simp only: skip)
    with n show ?thesis by blast
  qed
qed

section \<open>Registering and finalizing\<close>

primrec register_all :: "(nat \<Rightarrow> u64 \<Rightarrow> bool) \<Rightarrow> entry list \<Rightarrow> atexit \<Rightarrow> atexit outcome" where
  "register_all mem [] s = Inr s"
| "register_all mem (e # es) s =
     and_then (cxa_atexit mem (fst e) (snd e) s) (\<lambda>(_, s). register_all mem es s)"

lemma register_all_appends:
  assumes "represents s past" and "\<not> locked s" and "\<forall>e \<in> set es. fst e \<noteq> 0"
    and "length past + length es < max_entries" and "\<And>k n. mem k n"
  shows "\<exists>s'. register_all mem es s = Inr s' \<and> represents s' (past @ es) \<and> \<not> locked s'
     \<and> called s' = called s"
  using assms(1-4)
proof (induction es arbitrary: s past)
  case Nil
  then show ?case by simp
next
  case (Cons e es)
  then have "length past < max_entries" and "fst e \<noteq> 0" by simp_all
  obtain s' where s': "cxa_atexit mem (fst e) (snd e) s = Inr (0, s')"
    "represents s' (past @ [(fst e, snd e)])" "\<not> locked s'" "called s' = called s"
    using cxa_atexit_appends [where mem = mem, OF Cons.prems(1,2) \<open>length past < max_entries\<close> assms(5)
        \<open>fst e \<noteq> 0\<close>] by blast
  then show ?case
    using Cons.IH [of s' "past @ [e]"] Cons.prems(3,4) by auto
qed

lemma live_all: "\<forall>e \<in> set es. fst e \<noteq> 0 \<Longrightarrow> live es = rev es"
  by (simp add: live_def filter_id_conv)

lemma finalize_stack:
  assumes "\<And>k n. mem k n" and "represents s es" and "es \<noteq> []" and "\<not> locked s"
    and "stack_run body k (live es) (called s) = Some all"
    and "length es + length all < max_entries + length (called s) + length (live es)"
  shows "\<exists>n s'. (\<forall>m \<ge> n. cxa_finalize mem body m s = Inr s') \<and> dangling s' \<and> called s' = all"
proof -
  let ?s = "s\<lparr>locked := True\<rparr>" and ?i = "count s - 1"
  have rep: "represents ?s es" using assms(2) by simp
  have i: "Suc (unat ?i) = length es" using restart_scan(2) [OF rep assms(3)] by simp
  then have "\<exists>n s'. scan mem body n (count s) ?i ?s = Inr s' \<and> dangling s' \<and> called s' = all"
    using scan_stack [where mem = mem and s = ?s and i = ?i, OF assms(1,5) rep _ _ _ _ refl assms(6)]
    by simp
  then obtain n s' where n: "scan mem body n (count s) ?i ?s = Inr s'" "dangling s'" "called s' = all"
    by blast
  then have "restart mem body (Suc n) ?s = Inr s'"
    using restart_scan(1) [OF rep assms(3), of mem body n] by simp
  then have run: "cxa_finalize mem body (Suc (Suc n)) s = Inr s'"
    using assms(4) by (simp add: atexit_lock_def)
  have "cxa_finalize mem body m s = Inr s'" if "Suc (Suc n) \<le> m" for m
    using finalize_fuel [OF run _ that] by simp
  with n(2,3) show ?thesis by blast
qed

lemma stack_run_inert:
  "(\<And>past f a. body past f a = []) \<Longrightarrow> stack_run body (length st) st past = Some (past @ st)"
  by (induction st arbitrary: past) simp_all

section \<open>After the array is freed\<close>

lemma dangling_deref: "dangling s \<Longrightarrow> deref s = Inl (Fault Use_after_free)"
  by (auto simp: dangling_def deref_def)

lemma dangling_other [simp]: "deref (s\<lparr>locked := l\<rparr>) = deref s" "deref (s\<lparr>count := c\<rparr>) = deref s"
  "deref (s\<lparr>capacity := c\<rparr>) = deref s"
  by (simp_all add: deref_def split: option.split)

lemma dangling_atexit:
  assumes "dangling s" and "f \<noteq> 0"
  shows "cxa_atexit mem f a s = Inl (Fault Use_after_free)"
proof -
  have "deref s = Inl (Fault Use_after_free)" and "g_array s \<noteq> None" and "\<not> locked s"
    using assms(1) dangling_deref by (auto simp: dangling_def)
  then show ?thesis
    using assms(2)
    by (auto simp: cxa_atexit_def atexit_lock_def make_room_def realloc_entries_def store_entry_def Let_def)
qed

lemma dangling_scan:
  "dangling s \<Longrightarrow> scan mem body (Suc n) total0 i (s\<lparr>locked := True\<rparr>) = Inl (Fault Use_after_free)"
  by (simp add: load_entry_def dangling_deref)

lemma dangling_restart:
  "dangling s \<Longrightarrow> restart mem body (Suc (Suc n)) (s\<lparr>locked := True\<rparr>) = Inl (Fault Use_after_free)"
  using dangling_scan [of s mem body n "count s" "count s - 1"] by (simp add: dangling_def)

lemma dangling_finalize:
  "dangling s \<Longrightarrow> cxa_finalize mem body (Suc (Suc (Suc n))) s = Inl (Fault Use_after_free)"
  using dangling_restart [of s mem body n] by (simp add: atexit_lock_def dangling_def)

lemma dangling_finish: "dangling s \<Longrightarrow> finish (s\<lparr>locked := True\<rparr>) = Inl (Fault Double_free)"
  by (auto simp: finish_def free_array_def dangling_def)

text \<open>A function that finalizes from inside the loop leaves the loop a freed array.\<close>

lemma scan_after_recursion:
  assumes "dangling s"
  shows "\<exists>fault \<in> {Use_after_free, Double_free}. \<forall>m \<ge> 2.
    and_then (atexit_lock s) (\<lambda>s.
      if count s \<noteq> total0 then restart mem body m s
      else if j = 0 then finish s else scan mem body m total0 (j - 1) s) = Inl (Fault fault)"
proof -
  have m: "\<exists>k. m = Suc (Suc k)" if "2 \<le> m" for m :: nat
    using that by (metis add_2_eq_Suc le_Suc_ex)
  have "\<not> locked s" using assms by (simp add: dangling_def)
  then show ?thesis
    using dangling_restart [OF assms] dangling_scan [OF assms] dangling_finish [OF assms] m
    by (cases "count s \<noteq> total0"; cases "j = 0")
      (force simp: atexit_lock_def simp del: restart.simps scan.simps)+
qed

lemma recursive_finalize:
  assumes "\<And>k n. mem k n" and "represents s es" and "\<not> locked s" and "live es = e # st"
    and "body (called s) (fst e) (snd e) = [Finalize]"
    and "stack_run body k st (called s @ [e]) = Some all"
    and "length es + length all < max_entries + length (called s) + length (live es)"
  shows "\<exists>fault \<in> {Use_after_free, Double_free}. \<exists>n. \<forall>m \<ge> n.
    cxa_finalize mem body m s = Inl (Fault fault)"
proof -
  let ?s = "s\<lparr>locked := True\<rparr>" and ?i = "count s - 1"
  have rep: "represents ?s es" and "es \<noteq> []" using assms(2,4) by auto
  have i: "Suc (unat ?i) = length es" using restart_scan(2) [OF rep \<open>es \<noteq> []\<close>] by simp
  obtain j where j: "unat j \<le> unat ?i" "es ! unat j = e" "fst e \<noteq> 0" "st = live (take (unat j) es)"
    "live (drop (Suc (unat j)) es) = []"
    and skip: "\<And>m. scan mem body (m + (unat ?i - unat j)) (count s) ?i ?s = scan mem body m (count s) j ?s"
    using scan_first_live [OF rep, of ?i e st mem body "count s"] i assms(4) by auto
  have jl: "unat j < length es" using j(1) i by simp
  let ?es = "es[unat j := (0, 0)]"
  obtain s1 where s1: "represents s1 ?es" "\<not> locked s1" "called s1 = called s @ [e]"
    and step: "\<And>n. scan mem body (Suc n) (count s) j ?s =
      and_then (run_actions mem body n [Finalize] s1)
        (\<lambda>s'. and_then (atexit_lock s') (\<lambda>s'.
          if count s' \<noteq> count s then restart mem body n s'
          else if j = 0 then finish s' else scan mem body n (count s) (j - 1) s'))"
    using scan_call [OF rep jl, where mem = mem and body = body and ?total0.0 = "count s"]
      j(2,3) assms(5) by auto
  have live: "live ?es = st" using live_cleared(2) [OF jl j(5)] j(4) by simp
  have bound: "length ?es + length all < max_entries + length (called s1) + length (live ?es)"
    using assms(4,7) s1(3) live by simp
  have "?es \<noteq> []" using jl by auto
  moreover have "stack_run body k (live ?es) (called s1) = Some all"
    using assms(6) s1(3) live by simp
  ultimately obtain n s2 where s2: "\<And>m. n \<le> m \<Longrightarrow> cxa_finalize mem body m s1 = Inr s2" "dangling s2"
    using finalize_stack [where mem = mem, OF assms(1) s1(1) _ s1(2) _ bound] by blast
  obtain fault where fault: "fault \<in> {Use_after_free, Double_free}"
    and after: "\<And>m. 2 \<le> m \<Longrightarrow> and_then (atexit_lock s2) (\<lambda>s'.
      if count s' \<noteq> count s then restart mem body m s'
      else if j = 0 then finish s' else scan mem body m (count s) (j - 1) s') = Inl (Fault fault)"
    using scan_after_recursion [OF s2(2), where ?total0.0 = "count s" and mem = mem and body = body and j = j] by auto
  have "run_actions mem body (Suc (Suc n)) [Finalize] s1 = Inr s2" using s2(1) [of "Suc n"] by simp
  then have "scan mem body (Suc (Suc (Suc n))) (count s) j ?s = Inl (Fault fault)"
    using after [of "Suc (Suc n)"] by (simp only: step and_then_simps)
  then have "scan mem body (Suc (Suc (Suc n)) + (unat ?i - unat j)) (count s) ?i ?s = Inl (Fault fault)"
    by (simp only: skip)
  then obtain m where "scan mem body m (count ?s) (count ?s - 1) ?s = Inl (Fault fault)"
    by (auto simp del: scan.simps)
  then have "restart mem body (Suc m) ?s = Inl (Fault fault)"
    by (simp only: restart_scan(1) [OF rep \<open>es \<noteq> []\<close>])
  then have run: "cxa_finalize mem body (Suc (Suc m)) s = Inl (Fault fault)"
    using assms(3) by (simp add: atexit_lock_def)
  have "cxa_finalize mem body k s = Inl (Fault fault)" if "Suc (Suc m) \<le> k" for k
    using finalize_fuel [OF run _ that] by simp
  with fault show ?thesis by blast
qed

section \<open>Failing allocations\<close>

lemma cxa_atexit_no_memory:
  assumes "represents s es" and "\<not> locked s" and "length es < max_entries" and "f \<noteq> 0"
    and "length es = 0 \<and> g_array s = None \<or> length es = unat (capacity s)"
    and "\<And>k n. \<not> mem k n"
  shows "cxa_atexit mem f a s = Inl (Fault Null_dereference)"
proof -
  have count: "unat (count s + 1) = Suc (length es)"
    using assms(1,3) by (simp add: represents_def unat_plus_one)
  show ?thesis
  proof (cases "g_array s")
    case None
    then have "unat (capacity s) = 8" using assms(1) by (auto simp: represents_def)
    then show ?thesis
      using assms(1,2,4,6) None count
      by (simp add: cxa_atexit_def atexit_lock_def make_room_def malloc_entries_def store_entry_def
          deref_def word_less_nat_alt represents_def)
  next
    case (Some b)
    then have "length es = unat (capacity s)" using assms(5) by simp
    then show ?thesis
      using assms(1,2,4,6) Some count
      by (auto simp: cxa_atexit_def atexit_lock_def make_room_def realloc_entries_def store_entry_def
          deref_def word_less_nat_alt represents_def Let_def)
  qed
qed

section \<open>Properties\<close>

text \<open>
  C18: registration is an append. Starting from any represented array that is not being
  finalized, a registration of a function succeeds, the array then holds the old entries and
  the new one at its end, with a capacity of at most the double of its length or 8, and the
  mutex is free again.
\<close>

theorem atexit_appends:
  assumes "represents s es" and "\<not> locked s" and "length es < max_entries"
    and "\<And>k n. mem k n" and "f \<noteq> 0"
  shows "\<exists>s'. cxa_atexit mem f a s = Inr (0, s') \<and> represents s' (es @ [(f, a)])
     \<and> \<not> locked s' \<and> called s' = called s"
  using assms by (metis cxa_atexit_appends)

theorem atexit_appends_witness:
  "\<exists>s'. cxa_atexit (\<lambda>k n. True) 64 1 atexit_start = Inr (0, s') \<and> represents s' [(64, 1)]"
  using atexit_appends [OF represents_start, of "\<lambda>k n. True" 64 1] by (auto simp: atexit_start_def)

text \<open>
  C17: finalizing is a stack. After any registrations, when the functions that are called
  register others but do not finalize, the calls are those of a stack: the last registered
  one first, and what a function registers before everything below it, each exactly once. With
  enough fuel the loop ends, the array is freed and the mutex is free. The bound keeps the
  array below \<open>max_entries\<close>.
\<close>

theorem finalize_calls_stack:
  assumes "\<And>k n. mem k n" and "es \<noteq> []" and "list_all (\<lambda>e. fst e \<noteq> 0) es"
    and "stack_run body k (rev es) [] = Some all" and "length all < max_entries"
  shows "\<exists>s n s'. register_all mem es atexit_start = Inr s
     \<and> (\<forall>m \<ge> n. cxa_finalize mem body m s = Inr s') \<and> called s' = all \<and> dangling s'"
proof -
  have "length es \<le> length all" using stack_run_length [OF assms(4)] by simp
  then have es: "\<forall>e \<in> set es. fst e \<noteq> 0" "length ([] :: entry list) + length es < max_entries"
    using assms(3,5) by (simp_all add: list_all_iff)
  have "\<not> locked atexit_start" "called atexit_start = []" by (simp_all add: atexit_start_def)
  then obtain s where s: "register_all mem es atexit_start = Inr s" "represents s es" "\<not> locked s"
    "called s = []"
    using register_all_appends [where mem = mem, OF represents_start _ es assms(1)] by auto
  then have "stack_run body k (live es) (called s) = Some all"
    using assms(4) live_all [OF es(1)] by simp
  moreover have "length es + length all < max_entries + length (called s) + length (live es)"
    using assms(5) live_all [OF es(1)] by simp
  ultimately show ?thesis
    using finalize_stack [where mem = mem, OF assms(1) s(2) assms(2) s(3)] s(1) by blast
qed

text \<open>A function that registers another one when it is called the first time.\<close>

definition late_body :: program where
  "late_body past f a = (if f = 66 then [Register 67 9] else [])"

theorem finalize_calls_stack_witness:
  "\<exists>s n s'. register_all (\<lambda>k n. True) [(64, 1), (66, 2), (65, 3)] atexit_start = Inr s
     \<and> (\<forall>m \<ge> n. cxa_finalize (\<lambda>k n. True) late_body m s = Inr s')
     \<and> called s' = [(65, 3), (66, 2), (67, 9), (64, 1)] \<and> dangling s'"
proof (rule finalize_calls_stack)
  show "stack_run late_body 4 (rev [(64, 1), (66, 2), (65, 3)]) [] = Some [(65, 3), (66, 2), (67, 9), (64, 1)]"
    by code_simp
qed simp_all

text \<open>
  Functions that register nothing are called once each, in the reverse of the order of
  their registration.
\<close>

theorem finalize_reverses:
  assumes "\<And>k n. mem k n" and "es \<noteq> []" and "list_all (\<lambda>e. fst e \<noteq> 0) es"
    and "length es < max_entries" and "\<And>past f a. body past f a = []"
  shows "\<exists>s n s'. register_all mem es atexit_start = Inr s
     \<and> (\<forall>m \<ge> n. cxa_finalize mem body m s = Inr s') \<and> called s' = rev es"
proof -
  have es: "\<forall>e \<in> set es. fst e \<noteq> 0" "length ([] :: entry list) + length es < max_entries"
    using assms(3,4) by (simp_all add: list_all_iff)
  have "\<not> locked atexit_start" "called atexit_start = []" by (simp_all add: atexit_start_def)
  then obtain s where s: "register_all mem es atexit_start = Inr s" "represents s es" "\<not> locked s"
    "called s = []"
    using register_all_appends [where mem = mem, OF represents_start _ es assms(1)] by auto
  have "stack_run body (length (rev es)) (rev es) [] = Some ([] @ rev es)"
    using assms(5) by (rule stack_run_inert)
  then have "stack_run body (length (rev es)) (live es) (called s) = Some (rev es)"
    using live_all [OF es(1)] s(4) by simp
  moreover have "length es + length (rev es) < max_entries + length (called s) + length (live es)"
    using assms(4) live_all [OF es(1)] by simp
  ultimately show ?thesis
    using finalize_stack [where mem = mem, OF assms(1) s(2) assms(2) s(3)] s(1) by blast
qed

theorem finalize_reverses_witness:
  "\<exists>s n s'. register_all (\<lambda>k n. True) [(64, 1), (66, 2), (65, 3)] atexit_start = Inr s
     \<and> (\<forall>m \<ge> n. cxa_finalize (\<lambda>k n. True) (\<lambda>past f a. []) m s = Inr s')
     \<and> called s' = [(65, 3), (66, 2), (64, 1)]"
  using finalize_reverses [of "\<lambda>k n. True" "[(64, 1), (66, 2), (65, 3)]" "\<lambda>past f a. []"]
  by simp

text \<open>
  The end state. After a finalization that ran to its end the count and the pointer still
  speak of the freed array: finalizing again or registering a function reads or writes it.
\<close>

theorem use_after_finalize:
  assumes "dangling s" and "f \<noteq> 0"
  shows "cxa_finalize mem body (Suc (Suc (Suc n))) s = Inl (Fault Use_after_free)
     \<and> cxa_atexit mem f a s = Inl (Fault Use_after_free)"
  using dangling_finalize [OF assms(1)] dangling_atexit [OF assms] by simp

definition finalized :: atexit where
  "finalized = \<lparr>heap = [Freed], g_array = Some 0, capacity = 8, count = 1, locked = False,
     called = [(64, 1)]\<rparr>"

theorem use_after_finalize_witness:
  "cxa_finalize (\<lambda>k n. True) (\<lambda>past f a. []) 3 finalized = Inl (Fault Use_after_free)
   \<and> cxa_finalize (\<lambda>k n. True) (\<lambda>past f a. []) 9
       \<lparr>heap = [Allocated (AtexitEntry 64 1 # replicate 7 Uninit)], g_array = Some 0, capacity = 8,
        count = 1, locked = False, called = []\<rparr> = Inr finalized"
proof
  have "dangling finalized" by (simp add: dangling_def finalized_def)
  then show "cxa_finalize (\<lambda>k n. True) (\<lambda>past f a. []) 3 finalized = Inl (Fault Use_after_free)"
    using use_after_finalize [of finalized 1 "\<lambda>k n. True" "\<lambda>past f a. []" 0 0]
    by (simp add: numeral_3_eq_3)
  show "cxa_finalize (\<lambda>k n. True) (\<lambda>past f a. []) 9
       \<lparr>heap = [Allocated (AtexitEntry 64 1 # replicate 7 Uninit)], g_array = Some 0, capacity = 8,
        count = 1, locked = False, called = []\<rparr> = Inr finalized"
    by code_simp
qed

text \<open>
  C21: finalizing from inside. When the function that is called first finalizes, and the
  others left to call do not, the inner call frees the array and the outer one goes on with
  it: with any fuel that suffices the run ends in a use after free or a double free.
\<close>

theorem finalize_not_reentrant:
  assumes "\<And>k n. mem k n" and "represents s es" and "\<not> locked s" and "live es = e # st"
    and "body (called s) (fst e) (snd e) = [Finalize]"
    and "stack_run body k st (called s @ [e]) = Some all"
    and "length es + length all < max_entries + length (called s) + length (live es)"
  shows "\<exists>fault \<in> {Use_after_free, Double_free}. \<exists>n. \<forall>m \<ge> n.
    cxa_finalize mem body m s = Inl (Fault fault)"
  using assms by (rule recursive_finalize)

definition reentrant_body :: program where
  "reentrant_body past f a = (if f = 65 then [Finalize] else [])"

theorem finalize_not_reentrant_witness:
  "\<exists>s. register_all (\<lambda>k n. True) [(64, 1), (65, 3)] atexit_start = Inr s
     \<and> (\<exists>fault \<in> {Use_after_free, Double_free}. \<exists>n. \<forall>m \<ge> n.
          cxa_finalize (\<lambda>k n. True) reentrant_body m s = Inl (Fault fault))"
proof -
  obtain s where s: "register_all (\<lambda>k n. True) [(64, 1), (65, 3)] atexit_start = Inr s"
    "represents s ([] @ [(64, 1), (65, 3)])" "\<not> locked s" "called s = called atexit_start"
    using register_all_appends [OF represents_start, of "[(64, 1), (65, 3)]" "\<lambda>k n. True"]
    by (auto simp: atexit_start_def)
  have "\<exists>fault \<in> {Use_after_free, Double_free}. \<exists>n. \<forall>m \<ge> n.
      cxa_finalize (\<lambda>k n. True) reentrant_body m s = Inl (Fault fault)"
    by (rule finalize_not_reentrant [where es = "[(64, 1), (65, 3)]" and e = "(65, 3)" and
          st = "[(64, 1)]" and k = 1 and all = "[(65, 3), (64, 1)]"])
      (use s in \<open>simp_all add: live_def reentrant_body_def atexit_start_def\<close>)
  with s(1) show ?thesis by blast
qed

text \<open>
  C40: failing allocations are not checked. When the first allocation or the doubling of a
  full array fails, the entry is written through a null pointer.
\<close>

theorem atexit_without_memory:
  assumes "represents s es" and "\<not> locked s" and "length es < max_entries" and "f \<noteq> 0"
    and "length es = 0 \<and> g_array s = None \<or> length es = unat (capacity s)"
    and "\<And>k n. \<not> mem k n"
  shows "cxa_atexit mem f a s = Inl (Fault Null_dereference)"
  using assms by (rule cxa_atexit_no_memory)

theorem atexit_without_memory_witness:
  "cxa_atexit (\<lambda>k n. False) 64 1 atexit_start = Inl (Fault Null_dereference)"
  by (rule atexit_without_memory [OF represents_start]) (simp_all add: atexit_start_def)

end
