(* ===== verification/Atexit_Threads.thy ===== *)
theory Atexit_Threads
  imports Atexit
begin

text \<open>
  Registrations from several threads. Between its steps a thread of \<open>__cxa_atexit\<close> can be
  interrupted by any other; the mutex makes the registrations one after the other.
\<close>

section \<open>Threads\<close>

text \<open>
  Where a thread is in \<open>__cxa_atexit\<close>: before the lock, holding it, with room made for its entry, with its
  entry stored, and after it returned. \<open>stored\<close> lists the threads in the order of their stores.
\<close>

datatype reg_pc = R_start | R_locked | R_roomed | R_stored | R_returned c_int | R_fault fault

record threads =
  shared :: atexit
  at :: "nat \<Rightarrow> reg_pc"
  stored :: "nat list"

definition threads_start :: "atexit \<Rightarrow> threads" where
  "threads_start s = \<lparr>shared = s, at = (\<lambda>t. R_start), stored = []\<rparr>"

text \<open>Thread \<open>t\<close> registers \<open>args t\<close>. A thread that finds the mutex locked has no step.\<close>

inductive reg_step :: "(nat \<Rightarrow> u64 \<Rightarrow> bool) \<Rightarrow> (nat \<Rightarrow> entry) \<Rightarrow> nat \<Rightarrow> threads \<Rightarrow> threads \<Rightarrow> bool"
  for mem :: "nat \<Rightarrow> u64 \<Rightarrow> bool" and args :: "nat \<Rightarrow> entry" and t :: nat where
  no_function: "at x t = R_start \<Longrightarrow> fst (args t) = 0 \<Longrightarrow>
    reg_step mem args t x (x\<lparr>at := (at x)(t := R_returned (- 1))\<rparr>)"
| lock: "at x t = R_start \<Longrightarrow> fst (args t) \<noteq> 0 \<Longrightarrow> atexit_lock (shared x) = Inr s \<Longrightarrow>
    reg_step mem args t x (x\<lparr>at := (at x)(t := R_locked), shared := s\<rparr>)"
| room: "at x t = R_locked \<Longrightarrow> make_room mem (shared x) = Inr s \<Longrightarrow>
    reg_step mem args t x (x\<lparr>at := (at x)(t := R_roomed), shared := s\<rparr>)"
| room_fault: "at x t = R_locked \<Longrightarrow> make_room mem (shared x) = Inl (Fault e) \<Longrightarrow>
    reg_step mem args t x (x\<lparr>at := (at x)(t := R_fault e)\<rparr>)"
| store: "at x t = R_roomed \<Longrightarrow> store_entry (shared x) (count (shared x) - 1) (args t) = Inr s \<Longrightarrow>
    reg_step mem args t x (x\<lparr>at := (at x)(t := R_stored), shared := s, stored := stored x @ [t]\<rparr>)"
| store_fault: "at x t = R_roomed \<Longrightarrow> store_entry (shared x) (count (shared x) - 1) (args t) = Inl (Fault e) \<Longrightarrow>
    reg_step mem args t x (x\<lparr>at := (at x)(t := R_fault e)\<rparr>)"
| unlock: "at x t = R_stored \<Longrightarrow>
    reg_step mem args t x (x\<lparr>at := (at x)(t := R_returned 0), shared := atexit_unlock (shared x)\<rparr>)"

definition threads_step :: "(nat \<Rightarrow> u64 \<Rightarrow> bool) \<Rightarrow> (nat \<Rightarrow> entry) \<Rightarrow> nat \<Rightarrow> threads \<Rightarrow> threads \<Rightarrow> bool" where
  "threads_step mem args n x y \<longleftrightarrow> (\<exists>t < n. reg_step mem args t x y)"

inductive_cases reg_stepE: "reg_step mem args t x y"

text \<open>One thread alone does what \<open>cxa_atexit\<close> does.\<close>

lemma reg_steps_alone:
  assumes "at x t = R_start" and "cxa_atexit mem (fst (args t)) (snd (args t)) (shared x) = Inr (r, s')"
  shows "\<exists>y. (reg_step mem args t)\<^sup>*\<^sup>* x y \<and> at y t = R_returned r \<and> shared y = s'"
proof (cases "fst (args t) = 0")
  case True
  then have "(reg_step mem args t)\<^sup>*\<^sup>* x (x\<lparr>at := (at x)(t := R_returned (- 1))\<rparr>)"
    using no_function [of x t args mem] assms(1) by blast
  moreover have "r = - 1" "s' = shared x" using assms(2) True by (simp_all add: cxa_atexit_def)
  ultimately show ?thesis by force
next
  case False
  with assms(2) obtain s1 s2 s3 where s: "atexit_lock (shared x) = Inr s1" "make_room mem s1 = Inr s2"
    "store_entry s2 (count s2 - 1) (args t) = Inr s3" "r = 0" "s' = atexit_unlock s3"
    by (auto simp: cxa_atexit_def and_then_def split: sum.splits)
  let ?x1 = "x\<lparr>at := (at x)(t := R_locked), shared := s1\<rparr>"
  let ?x2 = "?x1\<lparr>at := (at ?x1)(t := R_roomed), shared := s2\<rparr>"
  let ?x3 = "?x2\<lparr>at := (at ?x2)(t := R_stored), shared := s3, stored := stored ?x2 @ [t]\<rparr>"
  let ?x4 = "?x3\<lparr>at := (at ?x3)(t := R_returned 0), shared := atexit_unlock (shared ?x3)\<rparr>"
  have "reg_step mem args t x ?x1" using assms(1) False s(1) by (rule lock)
  moreover have "reg_step mem args t ?x1 ?x2" by (rule room) (simp_all add: s)
  moreover have "reg_step mem args t ?x2 ?x3" by (rule store) (simp_all add: s)
  moreover have "reg_step mem args t ?x3 ?x4" by (rule unlock) simp
  ultimately have "(reg_step mem args t)\<^sup>*\<^sup>* x ?x4" by (meson rtranclp.rtrancl_refl rtranclp.rtrancl_into_rtrancl)
  moreover have "at ?x4 t = R_returned r" "shared ?x4 = s'" using s by simp_all
  ultimately show ?thesis by blast
qed

section \<open>The mutex\<close>

lemma make_room_locked: "make_room mem s = Inr s' \<Longrightarrow> locked s' = locked s \<and> called s' = called s"
  by (auto simp: make_room_def malloc_entries_def realloc_entries_def and_then_def Let_def
      split: if_splits sum.splits)

lemma store_entry_locked: "store_entry s i e = Inr s' \<Longrightarrow> locked s' = locked s \<and> called s' = called s"
  by (auto simp: store_entry_def and_then_def split: if_splits sum.splits)

lemma reg_step_called: "reg_step mem args t x y \<Longrightarrow> called (shared y) = called (shared x)"
  by (auto simp: atexit_lock_def atexit_unlock_def elim!: reg_stepE dest!: make_room_locked store_entry_locked
      split: if_splits)

definition holds_lock :: "reg_pc \<Rightarrow> bool" where
  "holds_lock pc \<longleftrightarrow> pc = R_locked \<or> pc = R_roomed \<or> pc = R_stored"

lemma holds_lock_simps [simp]:
  "holds_lock R_locked" "holds_lock R_roomed" "holds_lock R_stored"
  "\<not> holds_lock R_start" "\<not> holds_lock (R_returned r)" "\<not> holds_lock (R_fault e)"
  by (simp_all add: holds_lock_def)

text \<open>
  What is true of each thread: it has not faulted, it has a function where it should have one, and it
  is among \<open>stored\<close> when its entry was stored.
\<close>

definition thread_ok :: "entry \<Rightarrow> bool \<Rightarrow> reg_pc \<Rightarrow> bool" where
  "thread_ok e is_stored pc \<longleftrightarrow> (case pc of
     R_start \<Rightarrow> \<not> is_stored
   | R_returned r \<Rightarrow> (if fst e = 0 then r = - 1 \<and> \<not> is_stored else r = 0 \<and> is_stored)
   | R_fault _ \<Rightarrow> False
   | _ \<Rightarrow> fst e \<noteq> 0 \<and> (is_stored \<longleftrightarrow> pc = R_stored))"

text \<open>
  \<open>h\<close> is the thread between lock and unlock, if there is one, and \<open>other\<close> says whether someone else has the
  lock; the array holds \<open>cs\<close>, with room for one more while a thread is about to store its own.
\<close>

definition array_ok :: "entry list \<Rightarrow> bool \<Rightarrow> nat option \<Rightarrow> threads \<Rightarrow> bool" where
  "array_ok cs other h x \<longleftrightarrow> (locked (shared x) \<longleftrightarrow> h \<noteq> None \<or> other) \<and> (other \<longrightarrow> h = None)
     \<and> (if \<exists>t. h = Some t \<and> at x t = R_roomed then roomy (shared x) cs else represents (shared x) cs)"

definition threads_inv :: "(nat \<Rightarrow> entry) \<Rightarrow> nat \<Rightarrow> entry list \<Rightarrow> bool \<Rightarrow> nat option \<Rightarrow> threads \<Rightarrow> bool" where
  "threads_inv args n cs other h x \<longleftrightarrow>
     (\<forall>t. thread_ok (args t) (t \<in> set (stored x)) (at x t))
     \<and> distinct (stored x)
     \<and> (\<forall>t. at x t \<noteq> R_start \<longrightarrow> t < n)
     \<and> (\<forall>t. holds_lock (at x t) \<longleftrightarrow> h = Some t)
     \<and> array_ok cs other h x"

lemma threads_inv_start:
  assumes "represents s es" and "\<not> locked s"
  shows "threads_inv args n es False None (threads_start s)"
  using assms by (simp add: threads_inv_def threads_start_def thread_ok_def array_ok_def)

lemma threads_invD:
  assumes "threads_inv args n cs other h x"
  shows "thread_ok (args t) (t \<in> set (stored x)) (at x t)" and "distinct (stored x)"
    and "at x t \<noteq> R_start \<Longrightarrow> t < n" and "holds_lock (at x t) \<longleftrightarrow> h = Some t" and "array_ok cs other h x"
  using assms by (auto simp only: threads_inv_def)

lemma threads_inv_holder:
  assumes "threads_inv args n cs other h x" and "holds_lock (at x t)"
  shows "h = Some t" and "locked (shared x)" and "\<not> other"
    and "at x t = R_roomed \<Longrightarrow> roomy (shared x) cs"
    and "at x t \<noteq> R_roomed \<Longrightarrow> represents (shared x) cs"
proof -
  show h: "h = Some t" using threads_invD(4) [OF assms(1)] assms(2) by simp
  have "array_ok cs other (Some t) x" using threads_invD(5) [OF assms(1)] by (simp only: h)
  then show "locked (shared x)" "\<not> other"
    "at x t = R_roomed \<Longrightarrow> roomy (shared x) cs"
    "at x t \<noteq> R_roomed \<Longrightarrow> represents (shared x) cs"
    by (simp_all add: array_ok_def)
qed

lemma threads_inv_stored:
  assumes "threads_inv args n cs other h x"
  shows "set (stored x) \<subseteq> {..<n}" and "length (stored x) \<le> n"
proof -
  have "t < n" if "t \<in> set (stored x)" for t
  proof -
    have "at x t \<noteq> R_start" using threads_invD(1) [OF assms, of t] that by (auto simp: thread_ok_def)
    then show ?thesis by (rule threads_invD(3) [OF assms])
  qed
  then show "set (stored x) \<subseteq> {..<n}" by auto
  from card_mono [OF _ this] show "length (stored x) \<le> n"
    using threads_invD(2) [OF assms] by (simp add: distinct_card)
qed

lemma threads_inv_room:
  assumes "threads_inv args n cs other h x" and "at x t = R_locked"
  shows "length (stored x) < n"
proof -
  have "t \<notin> set (stored x)" using threads_invD(1) [OF assms(1), of t] assms(2) by (simp add: thread_ok_def)
  moreover have "t < n" using threads_invD(3) [OF assms(1), of t] assms(2) by simp
  ultimately have "t \<notin> set (stored x)" "t \<in> {..<n}" by simp_all
  then have "set (stored x) \<subset> {..<n}" using threads_inv_stored(1) [OF assms(1)] by blast
  from psubset_card_mono [OF _ this] show ?thesis
    using threads_invD(2) [OF assms(1)] by (simp add: distinct_card)
qed

text \<open>A step of one thread, given what it does to the array and the thread.\<close>

lemma threads_inv_update:
  assumes "threads_inv args n cs other h x" and "t < n"
    and "st = stored x \<or> t \<notin> set (stored x) \<and> st = stored x @ [t]"
    and "thread_ok (args t) (t \<in> set st) pc"
    and "h' = (if holds_lock pc then Some t else if h = Some t then None else h)"
    and "h = None \<or> h = Some t \<or> \<not> holds_lock pc"
    and "array_ok cs' other h' (x\<lparr>at := (at x)(t := pc), shared := s, stored := st\<rparr>)"
  shows "threads_inv args n cs' other h' (x\<lparr>at := (at x)(t := pc), shared := s, stored := st\<rparr>)"
proof -
  note inv = threads_invD [OF assms(1)]
  let ?y = "x\<lparr>at := (at x)(t := pc), shared := s, stored := st\<rparr>"
  have st: "distinct st" "u \<noteq> t \<Longrightarrow> u \<in> set st \<longleftrightarrow> u \<in> set (stored x)" for u
    using assms(3) inv(2) by auto
  have "thread_ok (args u) (u \<in> set (stored ?y)) (at ?y u)" for u
    using inv(1) [of u] assms(4) st(2) by (cases "u = t") simp_all
  moreover have "at ?y u \<noteq> R_start \<Longrightarrow> u < n" for u
    using inv(3) [of u] assms(2) by (cases "u = t") simp_all
  moreover have "holds_lock (at ?y u) \<longleftrightarrow> h' = Some u" for u
    using inv(4) [of u] inv(4) [of t] assms(5,6) by (cases "u = t") (auto split: if_splits)
  ultimately show ?thesis
    using st(1) assms(7) by (simp only: threads_inv_def) simp
qed

section \<open>Steps keep the invariant\<close>

lemma lock_inv:
  assumes "threads_inv args n cs other h x" and "t < n"
    and "at x t = R_start" and "fst (args t) \<noteq> 0" and "atexit_lock (shared x) = Inr s"
  shows "threads_inv args n cs other (Some t) (x\<lparr>at := (at x)(t := R_locked), shared := s\<rparr>)"
proof -
  have s: "\<not> locked (shared x)" "s = (shared x)\<lparr>locked := True\<rparr>"
    using assms(5) by (auto simp: atexit_lock_def split: if_splits)
  then have "h = None" "\<not> other" using threads_invD(5) [OF assms(1)] by (simp_all add: array_ok_def)
  then have "threads_inv args n cs other (Some t) (x\<lparr>at := (at x)(t := R_locked), shared := s, stored := stored x\<rparr>)"
    by (intro threads_inv_update [OF assms(1,2)])
      (use threads_invD(1,4) [OF assms(1), of t] threads_invD(5) [OF assms(1)] assms(3,4) s in
        \<open>auto simp: thread_ok_def array_ok_def\<close>)
  then show ?thesis by simp
qed

lemma room_inv:
  assumes "threads_inv args n cs other h x" and "t < n"
    and "at x t = R_locked" and "make_room mem (shared x) = Inr s"
    and "length cs + n \<le> max_entries + length (stored x)" and "\<And>k m. mem k m"
  shows "threads_inv args n cs other (Some t) (x\<lparr>at := (at x)(t := R_roomed), shared := s\<rparr>)"
proof -
  have h: "\<not> other" "h = Some t" "represents (shared x) cs" "locked (shared x)"
    using threads_inv_holder [OF assms(1), of t] assms(3) by simp_all
  have ok: "fst (args t) \<noteq> 0" "t \<notin> set (stored x)"
    using threads_invD(1) [OF assms(1), of t] assms(3) by (simp_all add: thread_ok_def)
  have "length cs < max_entries"
    using threads_inv_room [OF assms(1,3)] assms(5) by simp
  then have "roomy s cs"
    using make_room_roomy [where mem = mem, OF h(3) _ assms(6)] assms(4) by auto
  moreover have "locked s" using make_room_locked [OF assms(4)] h(4) by blast
  ultimately have "threads_inv args n cs other (Some t) (x\<lparr>at := (at x)(t := R_roomed), shared := s, stored := stored x\<rparr>)"
    by (intro threads_inv_update [OF assms(1,2)]) (simp_all add: thread_ok_def array_ok_def ok h(1,2))
  then show ?thesis by simp
qed

lemma store_inv:
  assumes "threads_inv args n cs other h x" and "t < n"
    and "at x t = R_roomed" and "store_entry (shared x) (count (shared x) - 1) (args t) = Inr s"
  shows "threads_inv args n (cs @ [args t]) other (Some t)
    (x\<lparr>at := (at x)(t := R_stored), shared := s, stored := stored x @ [t]\<rparr>)"
proof -
  have h: "\<not> other" "h = Some t" "roomy (shared x) cs" "locked (shared x)"
    using threads_inv_holder [OF assms(1), of t] assms(3) by simp_all
  have ok: "fst (args t) \<noteq> 0" "t \<notin> set (stored x)"
    using threads_invD(1) [OF assms(1), of t] assms(3) by (simp_all add: thread_ok_def)
  have "represents s (cs @ [args t])"
    using roomy_store [OF h(3), of "fst (args t)" "snd (args t)"] assms(4) by simp
  moreover have "locked s" using store_entry_locked [OF assms(4)] h(4) by blast
  ultimately show ?thesis
    by (intro threads_inv_update [OF assms(1,2)]) (simp_all add: thread_ok_def array_ok_def ok h(1,2))
qed

lemma unlock_inv:
  assumes "threads_inv args n cs other h x" and "t < n" and "at x t = R_stored"
  shows "threads_inv args n cs other None (x\<lparr>at := (at x)(t := R_returned 0), shared := atexit_unlock (shared x)\<rparr>)"
proof -
  have h: "\<not> other" "h = Some t" "represents (shared x) cs"
    using threads_inv_holder [OF assms(1), of t] assms(3) by simp_all
  have ok: "fst (args t) \<noteq> 0" "t \<in> set (stored x)"
    using threads_invD(1) [OF assms(1), of t] assms(3) by (simp_all add: thread_ok_def)
  have "threads_inv args n cs other None
      (x\<lparr>at := (at x)(t := R_returned 0), shared := atexit_unlock (shared x), stored := stored x\<rparr>)"
    by (rule threads_inv_update [OF assms(1,2)])
      (use h in \<open>simp_all add: thread_ok_def array_ok_def atexit_unlock_def ok\<close>)
  then show ?thesis by simp
qed

lemma reg_step_inv:
  assumes "reg_step mem args t x y" and "threads_inv args n cs other h x" and "t < n"
    and "length cs + n \<le> max_entries + length (stored x)" and "\<And>k m. mem k m"
  shows "\<exists>h' new. new \<in> {[], [t]} \<and> stored y = stored x @ new
    \<and> threads_inv args n (cs @ map args new) other h' y"
  using assms(1)
proof (cases rule: reg_step.cases)
  case no_function
  have "threads_inv args n cs other h (x\<lparr>at := (at x)(t := R_returned (- 1)), shared := shared x, stored := stored x\<rparr>)"
    by (rule threads_inv_update [OF assms(2,3)])
      (use threads_invD(1,4) [OF assms(2), of t] threads_invD(5) [OF assms(2)] no_function in \<open>auto simp: thread_ok_def array_ok_def\<close>)
  then show ?thesis using no_function by auto
next
  case (lock s)
  then have "threads_inv args n cs other (Some t) y" using lock_inv [OF assms(2,3)] by simp
  then show ?thesis using lock by auto
next
  case (room s)
  then have "threads_inv args n cs other (Some t) y"
    using room_inv [where mem = mem, OF assms(2,3) _ _ assms(4,5)] by simp
  then show ?thesis using room by auto
next
  case (room_fault e)
  have "h = Some t" "represents (shared x) cs"
    using threads_inv_holder [OF assms(2), of t] room_fault by simp_all
  moreover have "length cs < max_entries"
    using threads_inv_room [OF assms(2)] room_fault assms(4) by fastforce
  ultimately show ?thesis
    using make_room_roomy [where mem = mem, OF _ _ assms(5)] room_fault by fastforce
next
  case (store s)
  then have "threads_inv args n (cs @ [args t]) other (Some t) y" using store_inv [OF assms(2,3)] by simp
  then show ?thesis using store by auto
next
  case (store_fault e)
  have h: "roomy (shared x) cs"
    using threads_inv_holder [OF assms(2), of t] store_fault by simp_all
  then show ?thesis
    using roomy_store [OF h, of "fst (args t)" "snd (args t)"] store_fault by auto
next
  case unlock
  then have "threads_inv args n cs other None y" using unlock_inv [OF assms(2,3)] by simp
  then show ?thesis using unlock by auto
qed

lemma threads_run_inv:
  assumes "(threads_step mem args n ^^ k) (threads_start s) x"
    and "represents s es" and "\<not> locked s" and "length es + n \<le> max_entries" and "\<And>k m. mem k m"
  shows "\<exists>h. threads_inv args n (es @ map args (stored x)) False h x"
  using assms(1)
proof (induction k arbitrary: x)
  case 0
  then show ?case using threads_inv_start [OF assms(2,3), of args n] by (auto simp: threads_start_def)
next
  case (Suc k)
  then obtain y where y: "(threads_step mem args n ^^ k) (threads_start s) y" "threads_step mem args n y x"
    by auto
  then obtain t where t: "reg_step mem args t y x" "t < n" by (auto simp: threads_step_def)
  moreover obtain h where h: "threads_inv args n (es @ map args (stored y)) False h y" using Suc.IH [OF y(1)] by blast
  moreover have "length (es @ map args (stored y)) + n \<le> max_entries + length (stored y)"
    using assms(4) by simp
  ultimately obtain h' new where "stored x = stored y @ new"
    "threads_inv args n ((es @ map args (stored y)) @ map args new) False h' x"
    using reg_step_inv [where mem = mem, OF t(1) h t(2) _ assms(5)] by blast
  then show ?case by auto
qed

section \<open>Every thread returns\<close>

fun reg_left :: "reg_pc \<Rightarrow> nat" where
  "reg_left R_start = 4"
| "reg_left R_locked = 3"
| "reg_left R_roomed = 2"
| "reg_left R_stored = 1"
| "reg_left (R_returned r) = 0"
| "reg_left (R_fault e) = 0"

lemma reg_step_at: "reg_step mem args t x y \<Longrightarrow> \<exists>pc. at y = (at x)(t := pc) \<and> reg_left pc < reg_left (at x t)"
  by (auto elim!: reg_stepE)

lemma threads_step_left:
  assumes "threads_step mem args n x y"
  shows "(\<Sum>t<n. reg_left (at y t)) < (\<Sum>t<n. reg_left (at x t))"
proof -
  obtain t pc where t: "t < n" "at y = (at x)(t := pc)" "reg_left pc < reg_left (at x t)"
    using assms reg_step_at by (force simp: threads_step_def)
  show ?thesis by (rule sum_strict_mono_ex1) (use t in auto)
qed

lemma threads_run_length:
  "(threads_step mem args n ^^ k) x y \<Longrightarrow> k + (\<Sum>t<n. reg_left (at y t)) \<le> (\<Sum>t<n. reg_left (at x t))"
proof (induction k arbitrary: y)
  case (Suc k)
  then obtain z where "(threads_step mem args n ^^ k) x z" "threads_step mem args n z y" by auto
  then show ?case using Suc.IH threads_step_left by fastforce
qed simp

text \<open>The thread that has the lock can go on, and without a fault.\<close>

lemma holder_goes_on:
  assumes "threads_inv args n cs other h x" and "holds_lock (at x t)"
    and "length cs + n \<le> max_entries + length (stored x)" and "\<And>k m. mem k m"
  shows "t < n \<and> (\<exists>y. reg_step mem args t x y)"
proof
  have "at x t \<noteq> R_start" using assms(2) by auto
  then show "t < n" by (rule threads_invD(3) [OF assms(1)])
  note array = threads_inv_holder [OF assms(1,2)]
  show "\<exists>y. reg_step mem args t x y"
    using assms(2)
  proof (cases "at x t")
    case R_locked
    have "length cs < max_entries"
      using threads_inv_room [OF assms(1) R_locked] assms(3) by simp
    then obtain s' where "make_room mem (shared x) = Inr s'"
      using make_room_roomy [where mem = mem, OF _ _ assms(4)] array R_locked by fastforce
    then show ?thesis using room [OF R_locked] by blast
  next
    case R_roomed
    then obtain s' where "store_entry (shared x) (count (shared x) - 1) (args t) = Inr s'"
      using array roomy_store [of _ _ "fst (args t)" "snd (args t)"] by fastforce
    then show ?thesis using store [OF R_roomed] by blast
  next
    case R_stored
    then show ?thesis using unlock by blast
  qed (simp_all)
qed

lemma starting_goes_on:
  assumes "at x t = R_start" and "\<not> locked (shared x)"
  shows "\<exists>y. reg_step mem args t x y"
  using no_function [OF assms(1), of args mem] lock [OF assms(1), of args _ mem] assms(2)
  by (cases "fst (args t) = 0") (auto simp: atexit_lock_def)

lemma threads_stuck:
  assumes "threads_inv args n cs False h x" and "\<not> (\<exists>y. threads_step mem args n x y)"
    and "length cs + n \<le> max_entries + length (stored x)" and "\<And>k m. mem k m"
  shows "h = None" and "t < n \<Longrightarrow> \<exists>r. at x t = R_returned r"
proof -
  have no: "\<not> (\<exists>y. reg_step mem args t x y)" if "t < n" for t
    using assms(2) that by (auto simp: threads_step_def)
  note inv = threads_invD [OF assms(1)]
  have lock_free: "\<not> holds_lock (at x t)" for t
    using holder_goes_on [where mem = mem, OF assms(1) _ assms(3,4)] no by blast
  show "h = None" using lock_free inv(4) by (metis not_Some_eq)
  then have free: "\<not> locked (shared x)" using inv(5) by (simp add: array_ok_def)
  show "\<exists>r. at x t = R_returned r" if "t < n"
  proof (cases "at x t")
    case R_start
    then show ?thesis using no [OF that] starting_goes_on free by blast
  qed (use lock_free [of t] inv(1) [of t] in \<open>simp_all add: thread_ok_def\<close>)
qed

lemma threads_run_maximal:
  "\<exists>k y. (threads_step mem args n ^^ k) x y \<and> \<not> (\<exists>z. threads_step mem args n y z)"
proof (induction "\<Sum>t<n. reg_left (at x t)" arbitrary: x rule: less_induct)
  case less
  show ?case
  proof (cases "\<exists>z. threads_step mem args n x z")
    case True
    then obtain z where z: "threads_step mem args n x z" by blast
    then obtain k y where "(threads_step mem args n ^^ k) z y" "\<not> (\<exists>z. threads_step mem args n y z)"
      using less [OF threads_step_left] by blast
    then show ?thesis using relpowp_Suc_I2 [of "threads_step mem args n", OF z] by blast
  next
    case False
    then show ?thesis using relpowp_0_I [of "threads_step mem args n" x] by blast
  qed
qed

section \<open>Properties\<close>

text \<open>
  C19: registrations from several threads. Whatever the interleaving of \<open>n\<close> threads, each with one registration, there are
  at most four steps to a thread and no access outside the array; where no step is left every
  thread has returned, \<open>-1\<close> exactly for a null function, the mutex is free, and the array holds what it
  held and behind it the entry of each thread with a function, once, in the order of the stores.
\<close>

theorem threads_linearize:
  assumes "(threads_step mem args n ^^ k) (threads_start s) x"
    and "represents s es" and "\<not> locked s" and "length es + n \<le> max_entries" and "\<And>k m. mem k m"
  shows "k \<le> 4 * n \<and> (\<forall>t e. at x t \<noteq> R_fault e)
     \<and> ((\<exists>y. threads_step mem args n x y)
        \<or> (\<forall>t < n. at x t = R_returned (if fst (args t) = 0 then - 1 else 0))
          \<and> \<not> locked (shared x) \<and> represents (shared x) (es @ map args (stored x))
          \<and> distinct (stored x) \<and> set (stored x) = {t. t < n \<and> fst (args t) \<noteq> 0})"
proof -
  obtain h where inv: "threads_inv args n (es @ map args (stored x)) False h x" using threads_run_inv [OF assms] by blast
  note ok = threads_invD(1) [OF inv]
  have "(\<Sum>t<n. reg_left (at (threads_start s) t)) = 4 * n" by (simp add: threads_start_def)
  then have "k \<le> 4 * n" using threads_run_length [OF assms(1)] by linarith
  moreover have "at x t \<noteq> R_fault e" for t e using ok [of t] by (auto simp: thread_ok_def)
  moreover have "(\<forall>t < n. at x t = R_returned (if fst (args t) = 0 then - 1 else 0))
      \<and> \<not> locked (shared x) \<and> represents (shared x) (es @ map args (stored x))
      \<and> distinct (stored x) \<and> set (stored x) = {t. t < n \<and> fst (args t) \<noteq> 0}"
    if stuck: "\<not> (\<exists>y. threads_step mem args n x y)"
  proof -
    have "length (es @ map args (stored x)) + n \<le> max_entries + length (stored x)" using assms(4) by simp
    note none = threads_stuck [where mem = mem, OF inv stuck this assms(5)]
    have returned: "at x t = R_returned (if fst (args t) = 0 then - 1 else 0)" "t \<in> set (stored x) \<longleftrightarrow> fst (args t) \<noteq> 0"
      if "t < n" for t
      using none(2) [OF that] ok [of t] by (auto simp: thread_ok_def split: if_splits)
    have "array_ok (es @ map args (stored x)) False None x" using threads_invD(5) [OF inv] by (simp only: none(1))
    then have "\<not> locked (shared x)" "represents (shared x) (es @ map args (stored x))"
      by (simp_all add: array_ok_def)
    moreover have "set (stored x) = {t. t < n \<and> fst (args t) \<noteq> 0}"
      using returned(2) threads_inv_stored(1) [OF inv] by blast
    ultimately show ?thesis
      using returned(1) threads_invD(2) [OF inv] by blast
  qed
  ultimately show ?thesis by blast
qed

text \<open>Two threads: one of the two orders.\<close>

definition two_threads :: "nat \<Rightarrow> entry" where
  "two_threads t = (if t = 0 then (64, 1) else (65, 2))"

theorem threads_linearize_witness:
  "\<exists>k x. (threads_step (\<lambda>k m. True) two_threads 2 ^^ k) (threads_start atexit_start) x
     \<and> (represents (shared x) [(64, 1), (65, 2)] \<or> represents (shared x) [(65, 2), (64, 1)])"
proof -
  obtain k x where x: "(threads_step (\<lambda>k m. True) two_threads 2 ^^ k) (threads_start atexit_start) x"
    "\<not> (\<exists>y. threads_step (\<lambda>k m. True) two_threads 2 x y)"
    using threads_run_maximal by blast
  have set: "{t. t < 2 \<and> fst (two_threads t) \<noteq> 0} = {0, Suc 0}"
    by (auto simp: two_threads_def)
  have "represents (shared x) ([] @ map two_threads (stored x))" "distinct (stored x)"
    "set (stored x) = {0, Suc 0}"
    using threads_linearize [OF x(1) represents_start] x(2) unfolding set
    by (simp_all add: atexit_start_def)
  moreover from this have "length (stored x) = 2" using distinct_card [of "stored x"] by simp
  then obtain t u where "stored x = [t, u]" by (auto simp: length_Suc_conv numeral_2_eq_2)
  ultimately show ?thesis
    using x(1) by (intro exI [of _ k] exI [of _ x]) (auto simp: two_threads_def doubleton_eq_iff)
qed

end
