(* ===== verification/Atexit_Race.thy ===== *)
theory Atexit_Race
  imports "HOL-Library.Multiset" Atexit_Threads
begin

text \<open>
  Finalization while others register. \<open>__cxa_finalize\<close> gives up the mutex while a registered function
  runs; meanwhile that function and other threads register more. The registrations are the threads
  of \<open>Atexit_Threads\<close>, the finalizer is one more thread beside them.
\<close>

section \<open>The finalizer\<close>

text \<open>
  Where the finalizer is: before the lock, at \<open>restart\<close>, before the entry \<open>i\<close> of a scan that began with \<open>total\<close>
  entries, before the call of an entry it took, with the called function running, before \<open>free\<close>,
  and after it returned, with or without having freed the array. It has the mutex at \<open>restart\<close>, in a scan and
  before \<open>free\<close>.
\<close>

datatype fin_pc = F_start | F_restart | F_scan u64 u64 | F_call u64 u64 entry | F_running u64 u64
  | F_free | F_returned bool | F_fault fault

record race =
  regs :: threads
  fin :: fin_pc

definition race_start :: "atexit \<Rightarrow> race" where
  "race_start s = \<lparr>regs = threads_start s, fin = F_start\<rparr>"

abbreviation next_entry :: "u64 \<Rightarrow> u64 \<Rightarrow> fin_pc" where
  "next_entry total0 i \<equiv> (if i = 0 then F_free else F_scan total0 (i - 1))"

definition fin_goes :: "race \<Rightarrow> fin_pc \<Rightarrow> atexit \<Rightarrow> race" where
  "fin_goes x pc s = x\<lparr>fin := pc, regs := (regs x)\<lparr>shared := s\<rparr>\<rparr>"

inductive fin_step :: "race \<Rightarrow> race \<Rightarrow> bool" where
  fin_lock: "fin x = F_start \<Longrightarrow> atexit_lock (shared (regs x)) = Inr s \<Longrightarrow>
    fin_step x (fin_goes x F_restart s)"
| fin_nothing: "fin x = F_restart \<Longrightarrow> count (shared (regs x)) = 0 \<Longrightarrow>
    fin_step x (fin_goes x (F_returned False) (atexit_unlock (shared (regs x))))"
| fin_begin: "fin x = F_restart \<Longrightarrow> count (shared (regs x)) > 0 \<Longrightarrow>
    fin_step x (fin_goes x (F_scan (count (shared (regs x))) (count (shared (regs x)) - 1)) (shared (regs x)))"
| fin_skip: "fin x = F_scan total0 i \<Longrightarrow> load_entry (shared (regs x)) i = Inr e \<Longrightarrow> fst e = 0 \<Longrightarrow>
    fin_step x (fin_goes x (next_entry total0 i) (shared (regs x)))"
| fin_take: "fin x = F_scan total0 i \<Longrightarrow> load_entry (shared (regs x)) i = Inr e \<Longrightarrow> fst e \<noteq> 0 \<Longrightarrow>
    store_entry (shared (regs x)) i (0, 0) = Inr s \<Longrightarrow>
    fin_step x (fin_goes x (F_call total0 i e) (atexit_unlock s))"
| fin_scan_fault: "fin x = F_scan total0 i \<Longrightarrow> load_entry (shared (regs x)) i = Inl (Fault f) \<Longrightarrow>
    fin_step x (fin_goes x (F_fault f) (shared (regs x)))"
| fin_call: "fin x = F_call total0 i e \<Longrightarrow>
    fin_step x (fin_goes x (F_running total0 i) ((shared (regs x))\<lparr>called := called (shared (regs x)) @ [e]\<rparr>))"
| fin_relock: "fin x = F_running total0 i \<Longrightarrow> atexit_lock (shared (regs x)) = Inr s \<Longrightarrow>
    fin_step x (fin_goes x (if count s \<noteq> total0 then F_restart else next_entry total0 i) s)"
| fin_free: "fin x = F_free \<Longrightarrow> free_array (shared (regs x)) = Inr s \<Longrightarrow>
    fin_step x (fin_goes x (F_returned True) (atexit_unlock s))"
| fin_free_fault: "fin x = F_free \<Longrightarrow> free_array (shared (regs x)) = Inl (Fault f) \<Longrightarrow>
    fin_step x (fin_goes x (F_fault f) (shared (regs x)))"

inductive_cases fin_stepE: "fin_step x y"

definition race_step :: "(nat \<Rightarrow> u64 \<Rightarrow> bool) \<Rightarrow> (nat \<Rightarrow> entry) \<Rightarrow> nat \<Rightarrow> race \<Rightarrow> race \<Rightarrow> bool" where
  "race_step mem args n x y \<longleftrightarrow> fin_step x y
     \<or> (\<exists>t < n. \<exists>r. reg_step mem args t (regs x) r \<and> y = x\<lparr>regs := r\<rparr>)"

lemma fin_goes_simps [simp]:
  "fin (fin_goes x pc s) = pc" "shared (regs (fin_goes x pc s)) = s"
  "at (regs (fin_goes x pc s)) = at (regs x)" "stored (regs (fin_goes x pc s)) = stored (regs x)"
  by (simp_all add: fin_goes_def)

text \<open>
  Alone, with functions that do nothing to the array, the finalizer does what \<open>cxa_finalize\<close> does.
\<close>

lemma fin_steps_trans: "fin_step x y \<Longrightarrow> fin_step\<^sup>*\<^sup>* y z \<Longrightarrow> fin_step\<^sup>*\<^sup>* x z"
  by (rule converse_rtranclp_into_rtranclp)

abbreviation fin_ends :: "race \<Rightarrow> atexit \<Rightarrow> bool" where
  "fin_ends x s' \<equiv> \<exists>y freed. fin_step\<^sup>*\<^sup>* x y \<and> fin y = F_returned freed \<and> shared (regs y) = s'"

lemma fin_ends_free:
  assumes "finish (shared (regs x)) = Inr s'" and "fin x = F_free"
  shows "fin_ends x s'"
proof -
  obtain s where "free_array (shared (regs x)) = Inr s" "s' = atexit_unlock s"
    using assms(1) by (cases "free_array (shared (regs x))") (auto simp: finish_def)
  then show ?thesis using fin_free [OF assms(2)] by (metis fin_goes_simps(1,2) r_into_rtranclp)
qed

lemma fin_ends_step: "fin_step x y \<Longrightarrow> fin_ends y s' \<Longrightarrow> fin_ends x s'"
  using fin_steps_trans by blast

lemma fin_goes_again [simp]: "fin_goes (fin_goes x pc s) pc' s' = fin_goes x pc' s'"
  by (simp add: fin_goes_def)

text \<open>One round that calls a function.\<close>

lemma fin_ends_round:
  assumes "fin x = F_scan total0 i" and "load_entry (shared (regs x)) i = Inr e" and "fst e \<noteq> 0"
    and "store_entry (shared (regs x)) i (0, 0) = Inr s1"
    and "s3 = s1\<lparr>called := called s1 @ [e], locked := True\<rparr>"
    and "fin_ends (fin_goes x (if count s3 \<noteq> total0 then F_restart else next_entry total0 i) s3) s'"
  shows "fin_ends x s'"
proof -
  let ?s2 = "(atexit_unlock s1)\<lparr>called := called (atexit_unlock s1) @ [e]\<rparr>"
  let ?x1 = "fin_goes x (F_call total0 i e) (atexit_unlock s1)"
  let ?x2 = "fin_goes ?x1 (F_running total0 i) ?s2"
  have "atexit_lock ?s2 = Inr s3" by (simp add: atexit_lock_def atexit_unlock_def assms(5))
  then have "fin_step ?x2 (fin_goes ?x2 (if count s3 \<noteq> total0 then F_restart else next_entry total0 i) s3)"
    by (intro fin_relock) (simp_all only: fin_goes_simps)
  moreover have "fin_step ?x1 ?x2" using fin_call [of ?x1 total0 i e] by simp
  moreover have "fin_step x ?x1" by (rule fin_take [OF assms(1-4)])
  ultimately show ?thesis using assms(6) fin_ends_step unfolding fin_goes_again by blast
qed

lemma restart_scan_steps:
  assumes "\<And>past f a. body past f a = []"
  shows "(restart mem body k (shared (regs x)) = Inr s' \<longrightarrow> fin x = F_restart \<longrightarrow> fin_ends x s')
    \<and> (scan mem body k total0 i (shared (regs x)) = Inr s' \<longrightarrow> fin x = F_scan total0 i \<longrightarrow> fin_ends x s')"
proof (induction k arbitrary: x total0 i)
  case 0
  then show ?case by simp
next
  case (Suc k)
  let ?s = "shared (regs x)"
  have after: "fin_ends (fin_goes x (next_entry total0 i) s) s'"
    if "(if i = 0 then finish s else scan mem body k total0 (i - 1) s) = Inr s'" for s total0 i x
    using that Suc.IH [of "fin_goes x (F_scan total0 (i - 1)) s" total0 "i - 1"]
      fin_ends_free [of "fin_goes x F_free s" s']
    by (cases "i = 0") simp_all
  have "fin_ends x s'" if run: "restart mem body (Suc k) ?s = Inr s'" and pc: "fin x = F_restart"
  proof (cases "count ?s > 0")
    case True
    then have "scan mem body k (count ?s) (count ?s - 1) ?s = Inr s'" using run by simp
    then have "fin_ends (fin_goes x (F_scan (count ?s) (count ?s - 1)) ?s) s'"
      using Suc.IH [of "fin_goes x (F_scan (count ?s) (count ?s - 1)) ?s"] by simp
    then show ?thesis by (rule fin_ends_step [OF fin_begin [OF pc True]])
  next
    case False
    then have "fin_step x (fin_goes x (F_returned False) (atexit_unlock ?s))" "s' = atexit_unlock ?s"
      using run fin_nothing [OF pc] by (simp_all add: word_gt_0)
    then show ?thesis by (metis fin_goes_simps(1,2) r_into_rtranclp)
  qed
  moreover have "fin_ends x s'" if run: "scan mem body (Suc k) total0 i ?s = Inr s'" and pc: "fin x = F_scan total0 i"
  proof -
    obtain e where e: "load_entry ?s i = Inr e" using run by (cases "load_entry ?s i") simp_all
    show ?thesis
    proof (cases "fst e = 0")
      case True
      then have "(if i = 0 then finish ?s else scan mem body k total0 (i - 1) ?s) = Inr s'" using run e by simp
      from after [OF this] show ?thesis by (rule fin_ends_step [OF fin_skip [OF pc e True]])
    next
      case False
      then obtain s1 where s1: "store_entry ?s i (0, 0) = Inr s1"
        using run e by (cases "store_entry ?s i (0, 0)") simp_all
      let ?s3 = "s1\<lparr>called := called s1 @ [e], locked := True\<rparr>"
      obtain k' where k: "k = Suc k'" using run e False s1 by (cases k) (simp_all add: Let_def)
      have acts: "run_actions mem body k [] u = Inr u" for u by (simp add: k)
      have rest: "(if count ?s3 \<noteq> total0 then restart mem body k ?s3
          else if i = 0 then finish ?s3 else scan mem body k total0 (i - 1) ?s3) = Inr s'"
        using run e False s1 assms acts by (simp add: Let_def atexit_lock_def atexit_unlock_def split del: if_split)
      have "fin_ends (fin_goes x (if count ?s3 \<noteq> total0 then F_restart else next_entry total0 i) ?s3) s'"
      proof (cases "count ?s3 = total0")
        case True
        then show ?thesis using rest after [of i ?s3 total0 x] by simp
      next
        case False
        then show ?thesis using rest Suc.IH [of "fin_goes x F_restart ?s3"] by simp
      qed
      then show ?thesis by (rule fin_ends_round [OF pc e False s1 refl])
    qed
  qed
  ultimately show ?case by blast
qed

lemma fin_steps_alone:
  assumes "\<And>past f a. body past f a = []" and "fin x = F_start"
    and "cxa_finalize mem body k (shared (regs x)) = Inr s'"
  shows "fin_ends x s'"
proof -
  obtain m where m: "k = Suc m" using assms(3) by (cases k) simp_all
  then obtain s where s: "atexit_lock (shared (regs x)) = Inr s" "restart mem body m s = Inr s'"
    using assms(3) by (cases "atexit_lock (shared (regs x))") simp_all
  have "fin_ends (fin_goes x F_restart s) s'"
    using restart_scan_steps [OF assms(1), where mem = mem and k = m and x = "fin_goes x F_restart s"] s(2) by simp
  then show ?thesis by (rule fin_ends_step [OF fin_lock [OF assms(2) s(1)]])
qed

section \<open>What holds until the array is freed\<close>

fun fin_holds :: "fin_pc \<Rightarrow> bool" where
  "fin_holds F_restart = True"
| "fin_holds (F_scan total0 i) = True"
| "fin_holds F_free = True"
| "fin_holds pc = False"

text \<open>The entry that was taken out of the array and is not called yet.\<close>

fun in_hand :: "fin_pc \<Rightarrow> entry multiset" where
  "in_hand (F_call total0 i e) = {#e#}"
| "in_hand pc = {#}"

text \<open>
  In a scan with \<open>total\<close> entries, those above \<open>i\<close> are cleared, and entry \<open>i\<close> too when its function runs;
  what was registered since lies behind them.
\<close>

definition cleared :: "nat \<Rightarrow> nat \<Rightarrow> entry list \<Rightarrow> bool" where
  "cleared i k cs \<longleftrightarrow> (\<forall>j. i \<le> j \<longrightarrow> j < k \<longrightarrow> fst (cs ! j) = 0)"

fun fin_ok :: "fin_pc \<Rightarrow> entry list \<Rightarrow> bool" where
  "fin_ok (F_scan total0 i) cs \<longleftrightarrow> unat total0 = length cs \<and> unat i < length cs \<and> cleared (Suc (unat i)) (length cs) cs"
| "fin_ok (F_call total0 i e) cs \<longleftrightarrow> unat total0 \<le> length cs \<and> unat i < unat total0 \<and> cleared (unat i) (unat total0) cs"
| "fin_ok (F_running total0 i) cs \<longleftrightarrow> unat total0 \<le> length cs \<and> unat i < unat total0 \<and> cleared (unat i) (unat total0) cs"
| "fin_ok F_free cs \<longleftrightarrow> cs \<noteq> [] \<and> cleared 0 (length cs) cs"
| "fin_ok (F_returned freed) cs \<longleftrightarrow> \<not> freed"
| "fin_ok (F_fault f) cs \<longleftrightarrow> False"
| "fin_ok pc cs \<longleftrightarrow> True"

definition race_inv :: "(nat \<Rightarrow> entry) \<Rightarrow> nat \<Rightarrow> entry list \<Rightarrow> entry list \<Rightarrow> nat option \<Rightarrow> race \<Rightarrow> bool" where
  "race_inv args n es cs h x \<longleftrightarrow>
     threads_inv args n cs (fin_holds (fin x)) h (regs x)
     \<and> length cs = length es + length (stored (regs x))
     \<and> mset (called (shared (regs x))) + in_hand (fin x) + mset (live cs)
         = mset (live es) + mset (map args (stored (regs x)))
     \<and> fin_ok (fin x) cs \<and> (fin x = F_returned False \<longrightarrow> es = [])"

text \<open>Once it is freed no entry is stored any more, and every entry was called.\<close>

definition freed_inv :: "(nat \<Rightarrow> entry) \<Rightarrow> nat \<Rightarrow> entry list \<Rightarrow> race \<Rightarrow> bool" where
  "freed_inv args n es x \<longleftrightarrow>
     fin x = F_returned True
     \<and> (\<exists>b. g_array (shared (regs x)) = Some b \<and> heap (shared (regs x)) ! b = Freed)
     \<and> (\<forall>t. at (regs x) t \<noteq> R_stored) \<and> (\<forall>t. at (regs x) t \<noteq> R_start \<longrightarrow> t < n)
     \<and> (locked (shared (regs x)) \<longrightarrow> (\<exists>t. holds_lock (at (regs x) t) \<or> (\<exists>f. at (regs x) t = R_fault f)))
     \<and> mset (called (shared (regs x))) = mset (live es) + mset (map args (stored (regs x)))"

lemma race_invD:
  assumes "race_inv args n es cs h x" and "fin x = pc"
  shows "threads_inv args n cs (fin_holds pc) h (regs x)" and "length cs = length es + length (stored (regs x))"
    and "mset (called (shared (regs x))) + in_hand pc + mset (live cs)
      = mset (live es) + mset (map args (stored (regs x)))" and "fin_ok pc cs" and "pc = F_returned False \<Longrightarrow> es = []"
  using assms(1) unfolding race_inv_def assms(2) by blast+

lemma race_inv_start:
  assumes "represents s es" and "\<not> locked s" and "called s = []"
  shows "race_inv args n es es None (race_start s)"
  using threads_inv_start [OF assms(1,2), of args n] assms(3)
  by (simp add: race_inv_def race_start_def) (simp add: threads_start_def)

section \<open>Registrations\<close>

lemma cleared_append: "k \<le> length cs \<Longrightarrow> cleared i k (cs @ ds) \<longleftrightarrow> cleared i k cs"
  by (auto simp: cleared_def nth_append)

lemma live_stored:
  assumes "threads_inv args n cs other h x" and "t \<in> set (stored x)"
  shows "live [args t] = [args t]"
proof -
  have "fst (args t) \<noteq> 0"
    using threads_invD(1) [OF assms(1), of t] assms(2) by (auto simp: thread_ok_def split: reg_pc.splits if_splits)
  then show ?thesis by (simp add: live_def)
qed

lemma reg_step_race:
  assumes "reg_step mem args t (regs x) r" and "t < n" and "race_inv args n es cs h x"
    and "length es + n \<le> max_entries" and "\<And>k m. mem k m"
  shows "\<exists>cs' h'. race_inv args n es cs' h' (x\<lparr>regs := r\<rparr>)"
proof -
  have inv: "threads_inv args n cs (fin_holds (fin x)) h (regs x)" "length cs = length es + length (stored (regs x))"
    "mset (called (shared (regs x))) + in_hand (fin x) + mset (live cs)
       = mset (live es) + mset (map args (stored (regs x)))" "fin_ok (fin x) cs"
    "fin x = F_returned False \<longrightarrow> es = []"
    using assms(3) unfolding race_inv_def by blast+
  have "length cs + n \<le> max_entries + length (stored (regs x))" using inv(2) assms(4) by simp
  from reg_step_inv [where mem = mem, OF assms(1) inv(1) assms(2) this assms(5)]
  obtain h' new where new: "new \<in> {[], [t]}" "stored r = stored (regs x) @ new"
    and r: "threads_inv args n (cs @ map args new) (fin_holds (fin x)) h' r"
    by blast
  have other: "\<not> fin_holds (fin x)" if "new = [t]"
  proof
    assume "fin_holds (fin x)"
    moreover have "at r t = R_stored"
      using assms(1) new that by (cases rule: reg_step.cases) simp_all
    ultimately show False using threads_inv_holder(3) [OF r, of t] by simp
  qed
  have "fin_ok (fin x) (cs @ map args new)"
    using inv(4) new(1) other by (cases "fin x") (auto simp: cleared_append)
  moreover have "mset (live (map args new)) = mset (map args new)"
    using new live_stored [OF r, of t] by auto
  ultimately have "race_inv args n es (cs @ map args new) h' (x\<lparr>regs := r\<rparr>)"
    using r inv(2,3,5) new(2) reg_step_called [OF assms(1)] by (simp add: race_inv_def) (simp add: ac_simps)
  then show ?thesis by blast
qed

section \<open>Steps of the finalizer\<close>

lemma mset_live: "mset (live cs) = filter_mset (\<lambda>e. fst e \<noteq> 0) (mset cs)"
  by (simp add: live_def)

lemma live_taken:
  assumes "i < length cs" and "fst (cs ! i) \<noteq> 0"
  shows "mset (live cs) = add_mset (cs ! i) (mset (live (cs[i := (0, 0)])))"
proof -
  have "mset cs = add_mset (cs ! i) (mset cs - {#cs ! i#})" using assms(1) by simp
  then show ?thesis using assms by (simp add: mset_live mset_update)
qed

lemma live_cleared_none: "cleared 0 (length cs) cs \<Longrightarrow> live cs = []"
  unfolding cleared_def live_def rev_is_Nil_conv filter_empty_conv by (metis in_set_conv_nth zero_le)

lemma cleared_taken: "cleared (Suc i) k cs \<Longrightarrow> i < length cs \<Longrightarrow> cleared i k (cs[i := (0, 0)])"
  by (auto simp: cleared_def nth_list_update Suc_le_eq)

lemma cleared_skipped: "cleared (Suc i) k cs \<Longrightarrow> fst (cs ! i) = 0 \<Longrightarrow> cleared i k cs"
  unfolding cleared_def by (metis Suc_leI le_neq_implies_less)

text \<open>The array changes while no registering thread has the mutex.\<close>

lemma threads_inv_shared:
  assumes "threads_inv args n cs other None x" and "represents s cs'" and "locked s \<longleftrightarrow> other'"
  shows "threads_inv args n cs' other' None (x\<lparr>shared := s\<rparr>)"
  using assms by (simp add: threads_inv_def array_ok_def)

lemma roomy_called [simp]: "roomy (s\<lparr>called := c\<rparr>) cs \<longleftrightarrow> roomy s cs"
  by (simp add: roomy_def)

lemma threads_inv_called:
  assumes "threads_inv args n cs other h x"
  shows "threads_inv args n cs other h (x\<lparr>shared := (shared x)\<lparr>called := c\<rparr>\<rparr>)"
  using assms by (simp add: threads_inv_def array_ok_def)

lemma nobody_holds:
  assumes "threads_inv args n cs other h x" and "other \<or> \<not> locked (shared x)"
  shows "h = None" and "represents (shared x) cs"
  using threads_invD(5) [OF assms(1)] assms(2) by (auto simp: array_ok_def split: if_splits)

text \<open>What a step of the finalizer must do to keep the invariant.\<close>

lemma race_inv_goes:
  assumes "race_inv args n es cs h x" and "fin_holds (fin x) \<or> \<not> locked (shared (regs x))"
    and "represents s cs'" and "locked s \<longleftrightarrow> fin_holds pc" and "called s = called (shared (regs x))"
    and "length cs' = length cs" and "in_hand pc + mset (live cs') = in_hand (fin x) + mset (live cs)"
    and "fin_ok pc cs'" and "pc = F_returned False \<Longrightarrow> es = []"
  shows "race_inv args n es cs' None (fin_goes x pc s)"
proof -
  have inv: "threads_inv args n cs (fin_holds (fin x)) h (regs x)"
    using assms(1) by (simp add: race_inv_def)
  have "threads_inv args n cs' (fin_holds pc) None ((regs x)\<lparr>shared := s\<rparr>)"
    using threads_inv_shared [OF _ assms(3,4)] inv nobody_holds(1) [OF inv assms(2)] by simp
  moreover have "mset (called s) + in_hand pc + mset (live cs') = mset (live es) + mset (map args (stored (regs x)))"
    using assms(1,5,7) by (simp add: race_inv_def add.assoc)
  ultimately show ?thesis
    using assms(1,6,8,9) by (simp add: race_inv_def) (simp add: fin_goes_def)
qed

lemma fin_step_scan:
  assumes "race_inv args n es cs h x" and "fin x = F_scan total0 i"
  shows "h = None" and "represents (shared (regs x)) cs" and "locked (shared (regs x))"
    and "unat total0 = length cs" and "unat i < length cs" and "cleared (Suc (unat i)) (length cs) cs"
    and "load_entry (shared (regs x)) i = Inr (cs ! unat i)"
proof -
  note inv = race_invD(1) [OF assms, simplified] and ok = race_invD(4) [OF assms]
  show rep: "h = None" "represents (shared (regs x)) cs"
    using nobody_holds [OF inv] by simp_all
  show "locked (shared (regs x))" using threads_invD(5) [OF inv] by (simp add: array_ok_def)
  show "unat total0 = length cs" "unat i < length cs" "cleared (Suc (unat i)) (length cs) cs"
    using ok by simp_all
  then show "load_entry (shared (regs x)) i = Inr (cs ! unat i)"
    using load_represents [OF rep(2)] by simp
qed

lemma next_entry_ok:
  assumes "unat total0 = length cs" and "unat i < length cs" and "cleared (unat i) (length cs) cs"
  shows "fin_ok (next_entry total0 i) cs" and "fin_holds (next_entry total0 i)" and "in_hand (next_entry total0 i) = {#}"
proof -
  show "fin_ok (next_entry total0 i) cs"
  proof (cases "i = 0")
    case True
    then show ?thesis using assms by auto
  next
    case False
    then have "Suc (unat (i - 1)) = unat i" by (rule unat_pred)
    then show ?thesis using False assms by simp
  qed
qed simp_all

lemma fin_begin_inv:
  assumes "fin x = F_restart" and "count (shared (regs x)) > 0" and "race_inv args n es cs h x"
  shows "race_inv args n es cs None (fin_goes x (F_scan (count (shared (regs x))) (count (shared (regs x)) - 1)) (shared (regs x)))"
proof -
  note inv = race_invD(1) [OF assms(3,1), simplified]
  have rep: "represents (shared (regs x)) cs" "locked (shared (regs x))"
    using nobody_holds [OF inv] threads_invD(5) [OF inv] by (simp_all add: array_ok_def)
  let ?c = "count (shared (regs x))"
  have "Suc (unat (?c - 1)) = length cs"
    using unat_pred [of ?c] assms(2) represents_count [OF rep(1)] by (simp add: word_gt_0)
  then have "fin_ok (F_scan ?c (?c - 1)) cs"
    using represents_count [OF rep(1)] by (simp add: cleared_def)
  then have "race_inv args n es cs None (fin_goes x (F_scan ?c (?c - 1)) (shared (regs x)))"
    using assms rep by (intro race_inv_goes [OF assms(3)]) simp_all
  then show ?thesis .
qed

lemma fin_skip_inv:
  assumes "fin x = F_scan total0 i" and "load_entry (shared (regs x)) i = Inr e" and "fst e = 0" and "race_inv args n es cs h x"
  shows "race_inv args n es cs None (fin_goes x (next_entry total0 i) (shared (regs x)))"
proof -
  note scan = fin_step_scan [OF assms(4,1)]
  have "e = cs ! unat i" using assms(2) by (simp only: scan(7) sum.inject)
  then have "cleared (unat i) (length cs) cs"
    using assms(3) cleared_skipped [OF scan(6)] by (simp only:)
  note ok = next_entry_ok [OF scan(4,5) this]
  obtain pc where pc: "pc = next_entry total0 i" by blast
  have "race_inv args n es cs None (fin_goes x pc (shared (regs x)))"
  proof (rule race_inv_goes [OF assms(4)])
    show "fin_holds (fin x) \<or> \<not> locked (shared (regs x))" by (simp add: assms(1))
    show "represents (shared (regs x)) cs" by (rule scan(2))
    show "locked (shared (regs x)) = fin_holds pc" using scan(3) ok(2) by (simp only: pc)
    show "in_hand pc + mset (live cs) = in_hand (fin x) + mset (live cs)"
      by (simp only: pc ok(3) assms(1) in_hand.simps)
    show "fin_ok pc cs" using ok(1) by (simp only: pc)
    show "es = []" if "pc = F_returned False" using that by (simp add: pc split: if_splits)
  qed simp_all
  then show ?thesis unfolding pc .
qed

lemma fin_take_inv:
  assumes "fin x = F_scan total0 i" and "load_entry (shared (regs x)) i = Inr e" and "fst e \<noteq> 0" and "store_entry (shared (regs x)) i (0, 0) = Inr s" and "race_inv args n es cs h x"
  shows "race_inv args n es (cs[unat i := (0, 0)]) None (fin_goes x (F_call total0 i e) (atexit_unlock s))"
proof -
  note scan = fin_step_scan [OF assms(5,1)]
  have e: "e = cs ! unat i" using assms(2) by (simp only: scan(7) sum.inject)
  let ?cs = "cs[unat i := (0, 0)]"
  obtain s' where "store_entry (shared (regs x)) i (0, 0) = Inr s'" "represents s' ?cs" "called s' = called (shared (regs x))"
    using store_represents [OF scan(2,5)] by metis
  then have s: "represents s ?cs" "called s = called (shared (regs x))" using assms(4) by simp_all
  have "fin_ok (F_call total0 i e) ?cs"
    using scan(4,5) cleared_taken [OF scan(6,5)] by simp
  then have "race_inv args n es ?cs None (fin_goes x (F_call total0 i e) (atexit_unlock s))"
    using s live_taken [OF scan(5)] e assms(3)
    by (intro race_inv_goes [OF assms(5)]) (simp_all add: assms(1) atexit_unlock_def)
  then show ?thesis .
qed

lemma fin_relock_inv:
  assumes "fin x = F_running total0 i" and "atexit_lock (shared (regs x)) = Inr s" and "race_inv args n es cs h x"
  shows "race_inv args n es cs None (fin_goes x (if count s \<noteq> total0 then F_restart else next_entry total0 i) s)"
proof -
  have s: "\<not> locked (shared (regs x))" "s = (shared (regs x))\<lparr>locked := True\<rparr>"
    using assms(2) by (auto simp: atexit_lock_def split: if_splits)
  have rep: "represents s cs"
    using nobody_holds(2) [OF race_invD(1) [OF assms(3,1)]] s by simp
  have ok: "unat i < unat total0" "cleared (unat i) (unat total0) cs"
    using race_invD(4) [OF assms(3,1)] by simp_all
  let ?pc = "if count s \<noteq> total0 then F_restart else next_entry total0 i"
  have "fin_ok ?pc cs \<and> fin_holds ?pc \<and> in_hand ?pc = {#}"
  proof (cases "count s = total0")
    case True
    then have "unat total0 = length cs" using represents_count [OF rep] by simp
    then show ?thesis using True ok next_entry_ok [of total0 cs i] by (simp del: if_split)
  qed simp
  then have "race_inv args n es cs None (fin_goes x ?pc s)"
    using s by (intro race_inv_goes [OF assms(3) _ rep]) (simp_all add: assms(1) del: if_split)
  then show ?thesis .
qed

lemma fin_free_inv:
  assumes "fin x = F_free" and "free_array (shared (regs x)) = Inr s" and "race_inv args n es cs h x"
  shows "freed_inv args n es (fin_goes x (F_returned True) (atexit_unlock s))"
proof -
  note inv = race_invD(1) [OF assms(3,1), simplified] and ok = race_invD(4) [OF assms(3,1)]
    and calls = race_invD(3) [OF assms(3,1)]
  have rep: "h = None" "represents (shared (regs x)) cs" using nobody_holds [OF inv] by simp_all
  obtain b where b: "g_array (shared (regs x)) = Some b" "b < length (heap (shared (regs x)))"
    "\<exists>cells. heap (shared (regs x)) ! b = Allocated cells"
    using rep(2) ok by (auto simp: represents_def split: option.splits)
  then have s: "s = (shared (regs x))\<lparr>heap := (heap (shared (regs x)))[b := Freed]\<rparr>"
    using assms(2) by (auto simp: free_array_def)
  have "at (regs x) t \<noteq> R_stored" for t
    using threads_invD(4) [OF inv, of t] rep(1) by auto
  moreover have "live cs = []" using ok live_cleared_none by simp
  ultimately have "freed_inv args n es (fin_goes x (F_returned True) (atexit_unlock s))"
    using b(1,2) calls threads_invD(3) [OF inv] by (simp add: freed_inv_def atexit_unlock_def s)
  then show ?thesis .
qed

lemma fin_step_inv:
  assumes "fin_step x y" and "race_inv args n es cs h x"
  shows "(\<exists>cs' h'. race_inv args n es cs' h' y) \<or> freed_inv args n es y"
  using assms
proof (induction rule: fin_step.induct)
  case (fin_lock x s)
  then have s: "\<not> locked (shared (regs x))" "s = (shared (regs x))\<lparr>locked := True\<rparr>"
    by (auto simp: atexit_lock_def split: if_splits)
  have "represents (shared (regs x)) cs"
    using race_invD(1) [OF fin_lock(3,1)] s(1) nobody_holds(2) by blast
  then have "race_inv args n es cs None (fin_goes x F_restart s)"
    using fin_lock s by (intro race_inv_goes [OF fin_lock(3)]) simp_all
  then show ?case by blast
next
  case (fin_nothing x)
  note inv = race_invD(1) [OF fin_nothing(3,1), simplified]
  have rep: "represents (shared (regs x)) cs" using nobody_holds [OF inv] by simp
  then have "es = []"
    using represents_count [OF rep] race_invD(2) [OF fin_nothing(3,1)] fin_nothing(2) by simp
  with rep have "race_inv args n es cs None (fin_goes x (F_returned False) (atexit_unlock (shared (regs x))))"
    using fin_nothing by (intro race_inv_goes [OF fin_nothing(3)]) (simp_all add: atexit_unlock_def)
  then show ?case by blast
next
  case (fin_begin x)
  then show ?case using fin_begin_inv by blast
next
  case (fin_skip x total0 i e)
  then show ?case using fin_skip_inv by blast
next
  case (fin_take x total0 i e s)
  then show ?case using fin_take_inv by blast
next
  case (fin_scan_fault x total0 i f)
  then show ?case using fin_step_scan(7) by fastforce
next
  case (fin_call x total0 i e)
  let ?s = "(shared (regs x))\<lparr>called := called (shared (regs x)) @ [e]\<rparr>"
  have "threads_inv args n cs False h ((regs x)\<lparr>shared := ?s\<rparr>)"
    using race_invD(1) [OF fin_call(2,1)] by (intro threads_inv_called) simp
  then have "race_inv args n es cs h (fin_goes x (F_running total0 i) ?s)"
    using fin_call by (simp add: race_inv_def fin_goes_def)
  then show ?case by blast
next
  case (fin_relock x total0 i s)
  then show ?case using fin_relock_inv by blast
next
  case (fin_free x s)
  then show ?case using fin_free_inv by blast
next
  case (fin_free_fault x f)
  note inv = race_invD(1) [OF fin_free_fault(3,1), simplified]
  have "represents (shared (regs x)) cs" using nobody_holds [OF inv] by simp
  then show ?case
    using fin_free_fault(2) by (auto simp: represents_def free_array_def split: option.splits)
qed

section \<open>After the array was freed\<close>

lemma make_room_freed:
  assumes "g_array s = Some b" and "heap s ! b = Freed"
  shows "make_room mem s = Inl (Fault Use_after_free)
     \<or> (\<exists>s'. make_room mem s = Inr s' \<and> g_array s' = Some b \<and> heap s' = heap s)"
  using assms by (auto simp: make_room_def realloc_entries_def deref_def Let_def)

lemma store_entry_freed:
  "g_array s = Some b \<Longrightarrow> heap s ! b = Freed \<Longrightarrow> store_entry s i e = Inl (Fault Use_after_free)"
  by (simp add: store_entry_def deref_def)

lemma fault_steps:
  assumes "freed_inv args n es x" and "t < n" and "at (regs x) t = R_locked \<or> at (regs x) t = R_roomed"
  shows "\<exists>r. reg_step mem args t (regs x) r"
proof -
  obtain b where b: "g_array (shared (regs x)) = Some b" "heap (shared (regs x)) ! b = Freed"
    using assms(1) by (auto simp: freed_inv_def)
  show ?thesis
    using assms(3) make_room_freed [OF b, of mem] store_entry_freed [OF b] room [of "regs x" t mem]
      room_fault [of "regs x" t mem] store_fault [of "regs x" t args]
    by blast
qed

lemma freed_step:
  assumes "race_step mem args n x y" and "freed_inv args n es x"
  shows "freed_inv args n es y"
proof -
  have freed: "fin x = F_returned True" "\<And>t. at (regs x) t \<noteq> R_stored" "\<And>t. at (regs x) t \<noteq> R_start \<Longrightarrow> t < n"
    "locked (shared (regs x)) \<Longrightarrow> \<exists>t. holds_lock (at (regs x) t) \<or> (\<exists>f. at (regs x) t = R_fault f)"
    "mset (called (shared (regs x))) = mset (live es) + mset (map args (stored (regs x)))"
    using assms(2) by (auto simp: freed_inv_def)
  obtain b where b: "g_array (shared (regs x)) = Some b" "heap (shared (regs x)) ! b = Freed"
    using assms(2) by (auto simp: freed_inv_def)
  have "\<not> fin_step x y" using freed(1) by (auto elim!: fin_stepE)
  then obtain t r where t: "t < n" "reg_step mem args t (regs x) r" and y: "y = x\<lparr>regs := r\<rparr>"
    using assms(1) by (auto simp: race_step_def)
  have other: "u \<noteq> t \<Longrightarrow> at r u = at (regs x) u" for u
    using t(2) by (cases rule: reg_step.cases) simp_all
  have "at r u \<noteq> R_start \<Longrightarrow> u < n" for u using freed(3) [of u] other [of u] t(1) by (cases "u = t") auto
  moreover have "g_array (shared r) = Some b \<and> heap (shared r) ! b = Freed \<and> at r t \<noteq> R_stored
      \<and> stored r = stored (regs x) \<and> called (shared r) = called (shared (regs x))
      \<and> (locked (shared r) \<longrightarrow> holds_lock (at r t) \<or> (\<exists>f. at r t = R_fault f) \<or> locked (shared (regs x)) \<and> \<not> holds_lock (at (regs x) t) \<and> (\<forall>f. at (regs x) t \<noteq> R_fault f))"
    using t(2)
  proof (cases rule: reg_step.cases)
    case no_function
    then show ?thesis using b by simp
  next
    case (lock s)
    then show ?thesis using b by (auto simp: atexit_lock_def split: if_splits)
  next
    case (room s)
    then show ?thesis using make_room_freed [OF b, of mem] b make_room_locked by auto
  next
    case (store s)
    then show ?thesis using store_entry_freed [OF b] by simp
  next
    case unlock
    then show ?thesis using freed(2) by simp
  qed (use b in simp_all)
  moreover from this have "\<exists>u. holds_lock (at r u) \<or> (\<exists>f. at r u = R_fault f)" if "locked (shared r)"
    using that freed(4) other by metis
  moreover have "at r u \<noteq> R_stored" for u using calculation(2) freed(2) other by metis
  ultimately show ?thesis
    using freed(1,5) y by (auto simp: freed_inv_def)
qed

section \<open>Every run\<close>

lemma race_run_inv:
  assumes "(race_step mem args n)\<^sup>*\<^sup>* (race_start s) x"
    and "represents s es" and "\<not> locked s" and "called s = []"
    and "length es + n \<le> max_entries" and "\<And>k m. mem k m"
  shows "(\<exists>cs h. race_inv args n es cs h x) \<or> freed_inv args n es x"
  using assms(1)
proof (induction rule: rtranclp_induct)
  case base
  then show ?case using race_inv_start [OF assms(2-4)] by blast
next
  case (step x y)
  show ?case
  proof (cases "freed_inv args n es x")
    case True
    then show ?thesis using freed_step [OF step(2)] by blast
  next
    case False
    then obtain cs h where inv: "race_inv args n es cs h x" using step(3) by blast
    show ?thesis
      using step(2) fin_step_inv [OF _ inv] reg_step_race [where mem = mem, OF _ _ inv assms(5,6)]
      unfolding race_step_def by blast
  qed
qed

text \<open>Where no step is left.\<close>

lemma race_stuck:
  assumes "race_inv args n es cs h x" and "\<not> (\<exists>y. race_step mem args n x y)"
    and "length es + n \<le> max_entries" and "\<And>k m. mem k m"
  shows "fin x = F_returned False" and "t < n \<Longrightarrow> \<exists>r. at (regs x) t = R_returned r"
proof -
  have no: "\<not> fin_step x y" "t < n \<Longrightarrow> \<not> reg_step mem args t (regs x) r" for y t r
    using assms(2) by (auto simp: race_step_def)
  note inv = race_invD [OF assms(1) refl]
  have "length cs + n \<le> max_entries + length (stored (regs x))" using inv(2) assms(3) by simp
  note holder = holder_goes_on [where mem = mem, OF inv(1) _ this assms(4)]
  then have lock_free: "\<not> holds_lock (at (regs x) t)" for t using no(2) by blast
  then have "h = None" using threads_invD(4) [OF inv(1)] by (metis not_Some_eq)
  then have lock: "locked (shared (regs x)) \<longleftrightarrow> fin_holds (fin x)" "represents (shared (regs x)) cs"
    using threads_invD(5) [OF inv(1)] by (auto simp: array_ok_def)
  have free: "\<exists>s. atexit_lock (shared (regs x)) = Inr s" if "\<not> fin_holds (fin x)"
    using that lock(1) by (simp add: atexit_lock_def)
  show fin: "fin x = F_returned False"
  proof (cases "fin x")
    case F_start
    then show ?thesis using free no(1) fin_lock [OF F_start] by auto
  next
    case F_restart
    then show ?thesis using no(1) fin_nothing [OF F_restart] fin_begin [OF F_restart] by (auto simp: word_gt_0)
  next
    case (F_scan total0 i)
    note scan = fin_step_scan [OF assms(1) F_scan]
    obtain s where "store_entry (shared (regs x)) i (0, 0) = Inr s"
      using store_represents [OF scan(2,5)] by metis
    then show ?thesis using no(1) fin_skip [OF F_scan scan(7)] fin_take [OF F_scan scan(7)] by blast
  next
    case (F_call total0 i e)
    then show ?thesis using no(1) fin_call by blast
  next
    case (F_running total0 i)
    then show ?thesis using free no(1) fin_relock [OF F_running] by auto
  next
    case F_free
    then have "cs \<noteq> []" using inv(4) by simp
    then obtain b cells where "g_array (shared (regs x)) = Some b" "heap (shared (regs x)) ! b = Allocated cells"
      using lock(2) by (auto simp: represents_def split: option.splits)
    then show ?thesis using no(1) fin_free [OF F_free] by (auto simp: free_array_def)
  next
    case (F_returned freed)
    then show ?thesis using inv(4) by simp
  next
    case (F_fault f)
    then show ?thesis using inv(4) by simp
  qed
  have "\<not> locked (shared (regs x))" using lock(1) fin by simp
  then show "\<exists>r. at (regs x) t = R_returned r" if "t < n"
    using starting_goes_on [of "regs x" t mem args] no(2) [OF that] lock_free [of t] threads_invD(1) [OF inv(1), of t]
    by (cases "at (regs x) t") (auto simp: thread_ok_def)
qed

lemma freed_stuck:
  assumes "freed_inv args n es x" and "\<not> (\<exists>y. race_step mem args n x y)" and "t < n"
  shows "(\<exists>r. at (regs x) t = R_returned r) \<or> (\<exists>u < n. \<exists>f. at (regs x) u = R_fault f)"
proof (rule ccontr)
  assume neither: "\<not> ?thesis"
  have no: "u < n \<Longrightarrow> \<not> reg_step mem args u (regs x) r" for u r
    using assms(2) by (auto simp: race_step_def)
  have lt: "at (regs x) u \<noteq> R_start \<Longrightarrow> u < n" for u using assms(1) by (simp add: freed_inv_def)
  have idle: "at (regs x) u = R_start \<or> (\<exists>r. at (regs x) u = R_returned r)" for u
  proof (cases "at (regs x) u")
    case R_locked
    then show ?thesis using fault_steps [OF assms(1)] lt [of u] no by fastforce
  next
    case R_roomed
    then show ?thesis using fault_steps [OF assms(1)] lt [of u] no by fastforce
  next
    case R_stored
    then show ?thesis using assms(1) by (simp add: freed_inv_def)
  next
    case (R_fault f)
    then show ?thesis using neither lt [of u] by auto
  qed auto
  have "locked (shared (regs x)) \<Longrightarrow> \<exists>u. holds_lock (at (regs x) u) \<or> (\<exists>f. at (regs x) u = R_fault f)"
    using assms(1) by (simp only: freed_inv_def)
  moreover have "\<not> holds_lock (at (regs x) u)" "at (regs x) u \<noteq> R_fault f" for u f using idle [of u] by auto
  ultimately have "\<not> locked (shared (regs x))" by blast
  then show False
    using idle [of t] neither starting_goes_on [of "regs x" t mem args] no [OF assms(3)] by blast
qed

section \<open>Every run ends\<close>

text \<open>
  The steps the finalizer has left. A scan starts again only after a registration that came in since it began,
  so there are at most as many scans as registrations that are still to come or came in since, and one more.
\<close>

fun fin_left :: "nat \<Rightarrow> nat \<Rightarrow> nat \<Rightarrow> fin_pc \<Rightarrow> nat" where
  "fin_left m n k F_start = (n - k) * (3 * (m + n) + 3) + 3 * (m + n) + 3"
| "fin_left m n k F_restart = (n - k) * (3 * (m + n) + 3) + 3 * (m + n) + 2"
| "fin_left m n k (F_scan total0 i) = ((n - k) + (m + k - unat total0)) * (3 * (m + n) + 3) + 3 * unat i + 4"
| "fin_left m n k (F_call total0 i e) = ((n - k) + (m + k - unat total0)) * (3 * (m + n) + 3) + 3 * unat i + 3"
| "fin_left m n k (F_running total0 i) = ((n - k) + (m + k - unat total0)) * (3 * (m + n) + 3) + 3 * unat i + 2"
| "fin_left m n k F_free = 1"
| "fin_left m n k (F_returned freed) = 0"
| "fin_left m n k (F_fault f) = 0"

definition race_left :: "nat \<Rightarrow> nat \<Rightarrow> race \<Rightarrow> nat" where
  "race_left m n x = fin_left m n (length (stored (regs x))) (fin x) + (\<Sum>t<n. reg_left (at (regs x) t))"

text \<open>A registration that comes in does not give the finalizer more to do than it had.\<close>

lemma fin_left_stored:
  assumes "k < n" and "\<not> fin_holds pc" and "fin_ok pc cs" and "length cs = m + k"
  shows "fin_left m n (Suc k) pc \<le> fin_left m n k pc"
proof -
  have "n - Suc k + (m + Suc k - u) = n - k + (m + k - u)" if "u \<le> m + k" for u
    using that assms(1) by simp
  then show ?thesis
    using assms(2-4) by (cases pc) (simp_all add: mult_le_mono)
qed

lemma fin_left_next:
  "fin_left m n k (next_entry total0 i) \<le> ((n - k) + (m + k - unat total0)) * (3 * (m + n) + 3) + 3 * unat i + 1"
proof (cases "i = 0")
  case False
  then show ?thesis using unat_pred [of i] by simp
qed simp

lemma fin_left_scan:
  assumes "race_inv args n es cs h x" and "unat total0 = length cs" and "unat i < length cs"
  shows "fin_left (length es) n (length (stored (regs x))) (F_scan total0 i)
    < fin_left (length es) n (length (stored (regs x))) F_restart"
proof -
  note inv = race_invD [OF assms(1) refl]
  have "length (stored (regs x)) \<le> n" by (rule threads_inv_stored(2) [OF inv(1)])
  then have "unat i < length es + n" using assms(3) inv(2) by simp
  then show ?thesis using assms(2) inv(2) by simp
qed

lemma fin_left_restart:
  fixes m n k u i :: nat
  assumes "u < m + k"
  shows "(n - k) * (3 * (m + n) + 3) + 3 * (m + n) + 2 < ((n - k) + (m + k - u)) * (3 * (m + n) + 3) + 3 * i + 2"
proof -
  have "(Suc (n - k)) * (3 * (m + n) + 3) \<le> ((n - k) + (m + k - u)) * (3 * (m + n) + 3)"
    using assms by (intro mult_le_mono1) simp
  then show ?thesis by simp
qed

lemma fin_step_left:
  assumes "fin_step x y" and "race_inv args n es cs h x"
  shows "race_left (length es) n y < race_left (length es) n x"
proof -
  let ?m = "length es" and ?k = "length (stored (regs x))"
  note inv = race_invD [OF assms(2) refl]
  have "fin_left ?m n ?k (fin y) < fin_left ?m n ?k (fin x) \<and> regs y = (regs x)\<lparr>shared := shared (regs y)\<rparr>"
    using assms(1)
  proof (cases rule: fin_step.cases)
    case fin_begin
    have rep: "represents (shared (regs x)) cs"
      using nobody_holds(2) [OF race_invD(1) [OF assms(2) fin_begin(2)]] by simp
    let ?c = "count (shared (regs x))"
    have c: "unat ?c = length cs" by (rule represents_count [OF rep])
    moreover have "Suc (unat (?c - 1)) = unat ?c" using fin_begin(3) by (intro unat_pred) (auto simp: word_gt_0)
    ultimately have "unat (?c - 1) < length cs" by simp
    from fin_left_scan [OF assms(2) c this] show ?thesis
      by (simp only: fin_begin(1,2) fin_goes_simps simp_thms) (simp add: fin_goes_def)
  next
    case (fin_skip total0 i e)
    have "fin_left ?m n ?k (next_entry total0 i) < fin_left ?m n ?k (F_scan total0 i)"
      by (rule le_less_trans [OF fin_left_next]) simp
    then show ?thesis by (simp only: fin_skip(1,2) fin_goes_simps simp_thms) (simp add: fin_goes_def)
  next
    case (fin_relock total0 i s)
    have "s = (shared (regs x))\<lparr>locked := True\<rparr>" "\<not> locked (shared (regs x))"
      using fin_relock(3) by (auto simp: atexit_lock_def split: if_splits)
    then have c: "unat (count s) = length cs"
      using represents_count nobody_holds(2) [OF race_invD(1) [OF assms(2) fin_relock(2)]] by simp
    have "unat total0 \<le> length cs" using race_invD(4) [OF assms(2) fin_relock(2)] by simp
    then have before: "count s \<noteq> total0 \<Longrightarrow> unat total0 < ?m + ?k" using c inv(2) by (metis le_neq_implies_less unsigned_word_eqI)
    have "fin_left ?m n ?k F_restart < fin_left ?m n ?k (F_running total0 i)" if "count s \<noteq> total0"
      using fin_left_restart [OF before [OF that], of n "unat i"] by (simp only: fin_left.simps)
    moreover have "fin_left ?m n ?k (next_entry total0 i) < fin_left ?m n ?k (F_running total0 i)"
      by (rule le_less_trans [OF fin_left_next]) simp
    ultimately have "fin_left ?m n ?k (if count s \<noteq> total0 then F_restart else next_entry total0 i)
        < fin_left ?m n ?k (F_running total0 i)"
      by (cases "count s \<noteq> total0") (simp_all only: if_True if_False simp_thms)
    then show ?thesis by (simp only: fin_relock(1,2) fin_goes_simps simp_thms) (simp add: fin_goes_def)
  qed (simp_all add: fin_goes_def)
  then obtain s where "fin_left ?m n ?k (fin y) < fin_left ?m n ?k (fin x)" "regs y = (regs x)\<lparr>shared := s\<rparr>"
    by blast
  then show ?thesis by (simp add: race_left_def)
qed

lemma reg_step_left:
  assumes "reg_step mem args t (regs x) r" and "t < n" and "race_inv args n es cs h x \<or> freed_inv args n es x"
  shows "race_left (length es) n (x\<lparr>regs := r\<rparr>) < race_left (length es) n x"
proof -
  let ?m = "length es" and ?k = "length (stored (regs x))"
  have "threads_step mem args n (regs x) r" using assms(1,2) by (auto simp: threads_step_def)
  then have sum: "(\<Sum>t<n. reg_left (at r t)) < (\<Sum>t<n. reg_left (at (regs x) t))" by (rule threads_step_left)
  have "fin_left ?m n (length (stored r)) (fin x) \<le> fin_left ?m n ?k (fin x)"
  proof (cases "stored r = stored (regs x) \<or> freed_inv args n es x")
    case True
    then show ?thesis by (auto simp: freed_inv_def)
  next
    case False
    then have inv: "race_inv args n es cs h x" using assms(3) by blast
    note D = race_invD [OF inv refl]
    have roomed: "at (regs x) t = R_roomed" and len: "length (stored r) = Suc ?k"
      using assms(1) False by (cases rule: reg_step.cases; simp)+
    have "thread_ok (args t) (t \<in> set (stored (regs x))) R_roomed"
      using threads_invD(1) [OF D(1), of t] roomed by simp
    then have "t \<notin> set (stored (regs x))" by (simp add: thread_ok_def)
    then have "set (stored (regs x)) \<subset> {..<n}"
      using threads_inv_stored(1) [OF D(1)] assms(2) by blast
    from psubset_card_mono [OF _ this] have "?k < n"
      using threads_invD(2) [OF D(1)] by (simp add: distinct_card)
    moreover have "\<not> fin_holds (fin x)"
      using threads_inv_holder(3) [OF D(1), of t] roomed by simp
    ultimately show ?thesis using fin_left_stored [OF _ _ D(4,2)] len by simp
  qed
  then show ?thesis using sum by (simp add: race_left_def)
qed

lemma race_step_left:
  assumes "race_step mem args n x y" and "(\<exists>cs h. race_inv args n es cs h x) \<or> freed_inv args n es x"
  shows "race_left (length es) n y < race_left (length es) n x"
proof (cases "fin_step x y")
  case True
  then have "\<not> freed_inv args n es x" by (auto simp: freed_inv_def elim!: fin_stepE)
  then show ?thesis using assms(2) fin_step_left [OF True] by blast
next
  case False
  then obtain t r where "t < n" "reg_step mem args t (regs x) r" "y = x\<lparr>regs := r\<rparr>"
    using assms(1) by (auto simp: race_step_def)
  then show ?thesis using reg_step_left assms(2) by blast
qed

lemma race_start_left: "race_left (length es) n (race_start s) = n * (3 * (length es + n) + 3) + 3 * (length es + n) + 3 + 4 * n"
  by (simp add: race_left_def race_start_def threads_start_def)

lemma race_run_length:
  assumes "(race_step mem args n ^^ k) (race_start s) x"
    and "represents s es" and "\<not> locked s" and "called s = []"
    and "length es + n \<le> max_entries" and "\<And>k m. mem k m"
  shows "k + race_left (length es) n x \<le> race_left (length es) n (race_start s)"
  using assms(1)
proof (induction k arbitrary: x)
  case (Suc k)
  then obtain z where z: "(race_step mem args n ^^ k) (race_start s) z" "race_step mem args n z x" by auto
  have "(race_step mem args n)\<^sup>*\<^sup>* (race_start s) z" using z(1) by (rule relpowp_imp_rtranclp)
  from race_step_left [OF z(2) race_run_inv [where mem = mem, OF this assms(2-6)]] Suc.IH [OF z(1)]
  show ?case by simp
qed simp

text \<open>From every reachable state a run can be continued until no step is left.\<close>

lemma race_run_maximal:
  assumes "(race_step mem args n)\<^sup>*\<^sup>* (race_start s) x"
    and "represents s es" and "\<not> locked s" and "called s = []"
    and "length es + n \<le> max_entries" and "\<And>k m. mem k m"
  shows "\<exists>y. (race_step mem args n)\<^sup>*\<^sup>* x y \<and> \<not> (\<exists>z. race_step mem args n y z)"
  using assms(1)
proof (induction "race_left (length es) n x" arbitrary: x rule: less_induct)
  case less
  show ?case
  proof (cases "\<exists>z. race_step mem args n x z")
    case True
    then obtain z where z: "race_step mem args n x z" by blast
    have "race_left (length es) n z < race_left (length es) n x"
      using race_step_left [OF z race_run_inv [where mem = mem, OF less.prems assms(2-6)]] .
    moreover have "(race_step mem args n)\<^sup>*\<^sup>* (race_start s) z" using less.prems z by simp
    ultimately obtain y where "(race_step mem args n)\<^sup>*\<^sup>* z y" "\<not> (\<exists>z. race_step mem args n y z)"
      using less.hyps by blast
    then show ?thesis using converse_rtranclp_into_rtranclp [of "race_step mem args n", OF z] by blast
  next
    case False
    then show ?thesis by blast
  qed
qed

section \<open>Properties\<close>

text \<open>
  C20: finalization while others register. Whatever the interleaving of a finalization with \<open>n\<close> registrations, by other
  threads or by the functions it calls, the run ends after a bounded number of steps; no function is
  called more often than it was registered; the finalizer accesses nothing outside the array, and nobody
  else does before the array is freed; and when it is freed every function that was registered was called. Where no
  step is left the finalizer has returned, without freeing only if nothing was registered when it began, and all
  registrations have returned, or one accessed the freed array.
\<close>

theorem finalize_races:
  assumes "(race_step mem args n ^^ k) (race_start s) x"
    and "represents s es" and "\<not> locked s" and "called s = []"
    and "length es + n \<le> max_entries" and "\<And>k m. mem k m"
  shows "k \<le> n * (3 * (length es + n) + 3) + 3 * (length es + n) + 3 + 4 * n
     \<and> mset (called (shared (regs x))) \<subseteq># mset (live es) + mset (map args (stored (regs x)))
     \<and> (\<forall>f. fin x \<noteq> F_fault f)
     \<and> (fin x \<noteq> F_returned True \<longrightarrow> (\<forall>t f. at (regs x) t \<noteq> R_fault f))
     \<and> (fin x = F_returned True \<longrightarrow>
          mset (called (shared (regs x))) = mset (live es) + mset (map args (stored (regs x))))
     \<and> ((\<exists>y. race_step mem args n x y)
        \<or> (\<exists>freed. fin x = F_returned freed \<and> (freed \<or> es = []))
          \<and> ((\<forall>t < n. \<exists>r. at (regs x) t = R_returned r) \<or> fin x = F_returned True \<and> (\<exists>t < n. \<exists>f. at (regs x) t = R_fault f)))"
proof -
  have "k \<le> race_left (length es) n (race_start s)"
    using race_run_length [where mem = mem, OF assms] by simp
  then have bound: "k \<le> n * (3 * (length es + n) + 3) + 3 * (length es + n) + 3 + 4 * n"
    by (simp only: race_start_left)
  have "(race_step mem args n)\<^sup>*\<^sup>* (race_start s) x" using assms(1) by (rule relpowp_imp_rtranclp)
  from race_run_inv [where mem = mem, OF this assms(2-6)] consider cs h where "race_inv args n es cs h x" | "freed_inv args n es x"
    by blast
  then show ?thesis
  proof cases
    case 1
    note inv = race_invD [OF 1 refl]
    have "mset (called (shared (regs x))) \<subseteq># mset (live es) + mset (map args (stored (regs x)))"
      unfolding inv(3) [symmetric] by simp
    moreover have "at (regs x) t \<noteq> R_fault f" for t f
      using threads_invD(1) [OF inv(1), of t] by (auto simp: thread_ok_def)
    moreover have "fin x \<noteq> F_returned True" "fin x \<noteq> F_fault f" for f using inv(4) by auto
    ultimately show ?thesis
      using bound inv(5) race_stuck [where mem = mem, OF 1 _ assms(5,6)] by blast
  next
    case 2
    then have "fin x = F_returned True"
      "mset (called (shared (regs x))) = mset (live es) + mset (map args (stored (regs x)))"
      by (simp_all add: freed_inv_def)
    then show ?thesis
      using bound freed_stuck [OF 2] by (auto simp del: fin_pc.inject)
  qed
qed

text \<open>A registered function, and one that is registered by another thread meanwhile.\<close>

definition one_entry :: atexit where
  "one_entry = \<lparr>heap = [Allocated (AtexitEntry 64 1 # replicate 7 Uninit)], g_array = Some 0, capacity = 8,
     count = 1, locked = False, called = []\<rparr>"

lemma one_entry_represents: "represents one_entry [(64, 1)]"
  by (simp add: represents_def one_entry_def cells_of_def)

theorem finalize_races_witness:
  "\<exists>k x. (race_step (\<lambda>k m. True) (\<lambda>t. (65, 2)) 1 ^^ k) (race_start one_entry) x \<and> fin x = F_returned True
     \<and> mset (called (shared (regs x))) = {#(64, 1)#} + mset (map (\<lambda>t. (65, 2)) (stored (regs x)))"
proof -
  let ?step = "race_step (\<lambda>k m. True) (\<lambda>t. (65, 2)) 1"
  have start: "\<not> locked one_entry" "called one_entry = []" by (simp_all add: one_entry_def)
  obtain x where x: "?step\<^sup>*\<^sup>* (race_start one_entry) x" "\<not> (\<exists>y. ?step x y)"
    using race_run_maximal [where mem = "\<lambda>k m. True" and n = 1, OF rtranclp.rtrancl_refl one_entry_represents start]
    by auto
  then obtain k where k: "(?step ^^ k) (race_start one_entry) x" using rtranclp_imp_relpowp by metis
  have "live [(64, 1)] = [(64, 1)]" by (simp add: live_def)
  moreover note finalize_races [where mem = "\<lambda>k m. True", OF k one_entry_represents start]
  ultimately have "fin x = F_returned True"
    "mset (called (shared (regs x))) = {#(64, 1)#} + mset (map (\<lambda>t. (65, 2)) (stored (regs x)))"
    using x(2) by auto
  with k show ?thesis by blast
qed

end
