(* ===== verification/Spec2Isabelle.thy ===== *)
theory Spec2Isabelle
  imports Session Exchange Remount Entries Closure Unhooking Atexit_Race
begin

text \<open>
  Zygisk Assistant, the native code under \<open>src/module/jni\<close>.

  Zygisk loads the module into every process forked from Zygote. Before an app process is
  specialized the module decides whether to act (\<open>main.cpp\<close>, \<open>preAppSpecialize\<close>): it hooks
  \<open>unshare\<close> and \<open>setresuid\<close> in the PLT of the Android runtime, connects to its companion, a
  root process, and arms a callback. The first hook that runs fires the callback: it makes a
  new mount namespace and asks the companion to remove the mounts that give root away in it;
  if the companion does not say that it did, the process removes them itself; then a flag in
  libnativebridge is reset and the file descriptors collected before are reopened. After the
  specialization the PLT is restored. The companion reads a process id, enters the mount
  namespace of that process in a forked child, and there removes the mounts, remounts \<open>/data\<close>
  with the error behaviour of its superblock and resets modified properties (\<open>modules.cpp\<close>).
  \<open>atexit.cpp\<close> replaces \<open>__cxa_atexit\<close> and \<open>__cxa_finalize\<close> for the module's own library.

  Theories and sources:

  \<^item> \<open>Prelude\<close>: machine integers, strings, numerals, loops in the state monad.
  \<^item> \<open>Streams\<close>: the parts of \<open>std::istringstream\<close> the parsers use (extraction of words,
    characters and numbers, \<open>std::hex\<close>, \<open>std::ws\<close>, \<open>std::getline\<close>) with the fail and eof bits.
  \<^item> \<open>Proc_File\<close>: the contract of a parser of a file of lines (locale \<open>line_file\<close>), and
    stream lemmas on rendered fields.
  \<^item> \<open>Map_Parser\<close>, \<open>Mountinfo_Parser\<close>: \<open>map_parser.cpp\<close>, \<open>mountinfo_parser.cpp\<close>. Both interpret
    \<open>line_file\<close>; the line formats are those of proc(5), printed by \<open>render_\<close> functions.
  \<^item> \<open>Entries\<close>: both parsers on input of any kind: failure sticks, what is returned is well formed,
    and a number that does not fit drops its line.
  \<^item> \<open>Process\<close>: the state of a process (the static variables of all files, the memory
    \<open>doHideZygisk\<close> writes to) and the history of its calls to the outside.
  \<^item> \<open>Proc_Self\<close>: \<open>parseSelfMaps\<close> and \<open>parseSelfMountinfo\<close> with their static caches (locale
    \<open>cached_reader\<close>, interpreted for both).
  \<^item> \<open>Zygisk_Api\<close>: \<open>zygisk.hpp\<close>, the wrappers around the function table, the virtual methods of a
    module, the table of handlers it registers (\<open>module_abi\<close>) and the registration.
  \<^item> \<open>Android_Ids\<close>: \<open>android_filesystem_config.h\<close>, the numbers of users and groups as tables.
  \<^item> \<open>Utils\<close>, \<open>Fd_Reopener\<close>, \<open>Modules\<close>: \<open>utils.cpp\<close>, \<open>fd_reopener.cpp\<close>, \<open>modules.cpp\<close>.
  \<^item> \<open>Removal\<close>, \<open>Remount\<close>: what a run of \<open>doUnmount\<close> and of \<open>doRemount\<close> leaves in the mount table.
  \<^item> \<open>Main_Module\<close>: \<open>main.cpp\<close>. The locale \<open>one_shot_hook\<close> is the contract of the two hooks.
  \<^item> \<open>Closure\<close>: the storage of \<open>callbackFunction\<close>, with closures as objects that an assignment
    destroys.
  \<^item> \<open>Arming\<close>: when the callback is armed and what the saved pointers are then.
  \<^item> \<open>Companion\<close>: the companion's handler from the request to the answer.
  \<^item> \<open>Exchange\<close>: app and handler running at the same time, with the bytes in the socket between
    them, as an inductive step relation.
  \<^item> \<open>Lifecycle\<close>: a process from loading to the end of its specialization, as an inductive
    step relation whose steps go through the registered \<open>module_abi\<close>; what holds in every
    reachable state, and that an armed callback acts in the next hook call.
  \<^item> \<open>Unhooking\<close>: the entries of the PLT over a life, and that none points into the module at its end.
  \<^item> \<open>Session\<close>: the mount table of the app's namespace on the side of the companion and of the app.
  \<^item> \<open>Atexit\<close>: \<open>atexit.cpp\<close> with an explicit heap, refined to a stack of registrations.
  \<^item> \<open>Atexit_Threads\<close>: several threads in \<open>__cxa_atexit\<close> at the same time, interleaved step by step.
  \<^item> \<open>Atexit_Race\<close>: a thread in \<open>__cxa_finalize\<close> beside them, interleaved with their steps.
  \<^item> This theory: the app and its companion together, which of them removes the mounts, whose
    namespace is entered, and what its mount table is in the end.

  Correspondence. A definition has the name of the function it models. Code with effects is
  in the state monad over \<open>proc\<close>. A call to code outside the repository (system calls,
  Zygisk's table, the fd utilities, the property library, the ELF reader) appends an event to
  \<open>history\<close>, and what it returns is a function of the history so far, a field of \<open>env\<close> or of
  \<open>api_table\<close>. A property without a hypothesis on these holds for every behaviour of them,
  every failure included. \<open>None\<close> as the result of a hook or a handler is a call through a
  null pointer. A child made by \<open>fork\<close> runs on a copy of the process; its calls are in the
  history before the parent's \<open>waitpid\<close>, which the parent waits for. A C string or a buffer
  is a list of characters, and an access outside of it is \<open>None\<close>.

  What the groups of lemmas show. The parsers read back what the kernel prints, drop exactly
  the lines they cannot hold, and return well-formed entries for every input; the option lists
  are characterised for every input. The removal makes exactly the calls for the selected mounts, in reverse order, and against a kernel
  that detaches the topmost mount of a path it leaves the table without them, and nothing a
  second run would select; a mount that covers a selected one is lost in its place. The remount,
  the reset of the flag and of the properties are characterised on every branch, and after the
  remount \<open>/data\<close> shows the behaviour of its superblock. The hooks
  fire the callback once; over a whole life at most one mount namespace is made, no mount is
  removed outside a private namespace, so that Zygote keeps its table, no null pointer is
  called, an armed callback does run in the next hook call, and in the end no hook is left in the
  PLT, unless putting the functions back failed. The callback reads its captured descriptor
  after its closure was destroyed: \<open>Closure\<close> says what that depends on, the other theories use the
  captured value. The companion's answer
  is computed from the status of the child: when the child gets into the namespace, exactly
  one of the two sides removes the mounts and the namespace ends without them, but a child which
  failed counts as a success, and then neither does. Every interleaving of app
  and handler ends, with an answer that is the handler's or with none. Registration in \<open>Atexit\<close> appends, from
  several threads too, and finalization is a stack; with registrations coming in meanwhile it still ends, calls
  every function once that was registered before the array was freed, and stays inside the array.

  Hypotheses on the outside, each documented behaviour of that code: \<open>waits_properly\<close> (the
  status \<open>waitpid\<close> reports for a child that exited), \<open>commits_save\<close> (a successful commit saves
  the original functions of the registered hooks), \<open>detaches_topmost\<close> (\<open>umount2\<close>), \<open>in_sync\<close>
  (\<open>mountinfo\<close> shows the mount table), \<open>same_superblock\<close> (mounts of one device agree on type,
  source and options of the superblock), \<open>mount_kernel\<close> (the first of these with successful calls,
  and calls that neither mount nor unmount leave every mount in its place), \<open>remount_kernel\<close> (a
  remount sets the option of the superblock), \<open>isolates\<close> (mounts of a private namespace do not
  reach the one it came from), \<open>working_api\<close> (Zygisk's hooking functions work). Each is shown to hold of a concrete
  environment. In \<open>Lifecycle\<close> a hook is in the PLT when a commit that succeeded followed its registration.

  Bounds. \<open>max_entries\<close> is \<open>2 ^ 57\<close>: below it neither the count nor the size in bytes of the
  array of \<open>Atexit\<close> wraps at 64 bits, and no address space holds more. Finalization takes
  fuel because a registered function may register others for ever; the properties give a
  bound from which on every amount of fuel gives the same result. The loops of the
  parsers are total functions with measures. The module is built for 64-bit and for
  32-bit ABIs. \<open>Map_Parser\<close> and \<open>Entries\<close> take the width of a pointer as a parameter, since numbers
  of the kernel need not fit in 32 bits; elsewhere the word size is that of a 64-bit process (\<open>uintptr_t\<close>,
  \<open>size_t\<close>).

  Not modelled: the logging macros and the text they log; \<open>errno\<close>; the calls of \<open>getppid\<close> for
  a log line; the opaque \<open>impl\<close> pointer of Zygisk's table; what \<open>exit\<close> runs in the
  child; two finalizations at the same time (\<open>Atexit\<close> shows that a recursive one accesses the freed array);
  concurrency of several requests in the companion, each of which is a run of the
  handler in a process of its own state (\<open>Companion\<close> shows that requests served one after the
  other share nothing). ELFIO,
  libc++, the fd utilities and the property library are not part of the repository. The
  shell scripts, the Gradle and the ndk-build files are configuration.
\<close>

section \<open>The app and its companion\<close>

text \<open>
  The answer of the companion in the app: with a whole write and an answer of one byte the
  callback takes any byte but 0 for success.
\<close>

lemma ask_companion_answer:
  assumes "f \<noteq> no_fd" and "\<And>h bs. env_write E h f bs = word_of_nat (length bs)"
    and "\<And>h. env_read E h f 1 = Some [answer]"
  shows "fst (run_state (ask_companion E f) u) = (answer \<noteq> 0)"
  using assms by (simp add: ask_companion_def companion_request_def run_simps)

lemma app_removes:
  assumes "f \<noteq> no_fd" and "\<And>h bs. env_write E h f bs = word_of_nat (length bs)"
    and "\<And>h. env_read E h f 1 = Some [answer]"
    and "run_state (ScopedRegularReopener E) (a\<lparr>callbackFunction := Empty_callback\<rparr>) = (srr, a')"
    and "run_state (new_mount_ns E) a' = (Some True, a'')"
    and "snd (run_state (ask_companion E f) a'') = w"
  shows "umounts (history (snd (run_state (hide_callback E f) a))) = umounts (history a)
     @ (if answer \<noteq> 0 then []
        else map (\<lambda>m. (mount_point m, MNT_DETACH)) (selected (mountinfo_contents E (history w))))"
proof -
  have "run_state (ask_companion E f) a'' = (answer \<noteq> 0, w)"
    using ask_companion_answer [OF assms(1-3), of a''] assms(6) by (simp add: prod_eq_iff)
  note tail = hide_tail_umounts [OF this, of srr]
  have "umounts (history a') = umounts (history a)"
    using assms(4) by (rule no_umount_same [rotated, where s = "a\<lparr>callbackFunction := Empty_callback\<rparr>", simplified])
      (auto intro!: emits_intros)
  moreover have "umounts (history a'') = umounts (history a')"
    using assms(5) by (rule no_umount_same [rotated])
      (auto simp: new_mount_ns_def call_old_unshare_def sys_mount_def intro!: emits_intros)
  moreover have "run_state (hide_callback E f) a = run_state (hide_tail E f srr (Some True)) a''"
    using assms(4,5) by (simp add: hide_callback_body hide_body_def)
  ultimately show ?thesis using tail by simp
qed

lemma handler_no_fork:
  assumes "env_read E (history s) f 4 = Some (bytes_of_int pid)"
    and "env_fork E (history (requested E f s)) = - 1"
  shows "umounts (history (snd (run_state (zygisk_companion_handler E f) s))) = umounts (history s)"
proof -
  have "run_state (forkAndInvoke E (companion_child E pid)) (requested E f s) = (- 1, forked E (requested E f s))"
    using assms(2) by (simp add: forkAndInvoke_def forked_def)
  from handler_run [OF assms(1) this] show ?thesis
    by (simp add: Let_def forked_def requested_def umounts_Cons)
qed

text \<open>
  One of the two removes the mounts. When the child of the companion, once there is one,
  enters the namespace, and the app reads the byte the companion wrote, then the mounts are
  removed by the companion when the fork succeeded and by the app when it did not, and never
  by both.
\<close>

theorem one_side_removes:
  assumes "waits_properly EC" and "env_read EC (history c) sock 4 = Some (bytes_of_int pid)"
    and "env_fork EC (history (requested EC sock c)) \<noteq> - 1 \<longrightarrow>
      run_state (switchMountNS EC pid) (forked EC (requested EC sock c)) = (True, c')"
    and "last (history (snd (run_state (zygisk_companion_handler EC sock) c))) = Ev_write sock [answer] r"
    and "f \<noteq> no_fd" and "\<And>h bs. env_write EA h f bs = word_of_nat (length bs)"
    and "\<And>h. env_read EA h f 1 = Some [answer]"
    and "run_state (ScopedRegularReopener EA) (a\<lparr>callbackFunction := Empty_callback\<rparr>) = (srr, a')"
    and "run_state (new_mount_ns EA) a' = (Some True, a'')"
    and "snd (run_state (ask_companion EA f) a'') = w"
  shows "umounts (history (snd (run_state (zygisk_companion_handler EC sock) c))) = umounts (history c)
       @ (if env_fork EC (history (requested EC sock c)) = - 1 then []
          else map (\<lambda>m. (mount_point m, MNT_DETACH)) (selected (mountinfo_contents EC (history c'))))
     \<and> umounts (history (snd (run_state (hide_callback EA f) a))) = umounts (history a)
       @ (if env_fork EC (history (requested EC sock c)) = - 1
          then map (\<lambda>m. (mount_point m, MNT_DETACH)) (selected (mountinfo_contents EA (history w)))
          else [])"
proof -
  have answer: "answer = (if env_fork EC (history (requested EC sock c)) = - 1 then 0 else 1)"
    using handler_answer [OF assms(1,2)] assms(4) by (auto split: if_splits)
  show ?thesis
    using answer app_removes [OF assms(5-10)] handler_no_fork [OF assms(2)]
      handler_umounts [OF assms(1,2)] assms(3) by simp
qed

definition unforked_env :: env where
  "unforked_env = asked_env\<lparr>env_fork := (\<lambda>h. - 1)\<rparr>"

theorem one_side_removes_witness:
  "umounts (history (snd (run_state (zygisk_companion_handler unforked_env (Fd 4)) fresh_process))) = []
   \<and> umounts (history (snd (run_state (hide_callback device_env (Fd 9)) zygote))) = [(''/system/etc'', 2), (''/sbin'', 2)]"
proof -
  let ?a = "zygote\<lparr>callbackFunction := Empty_callback\<rparr>"
  let ?a' = "?a\<lparr>history := [Ev_GetOpenFds True]\<rparr>"
  let ?a'' = "?a\<lparr>history := [Ev_GetOpenFds True, Ev_unshare 4096 CLONE_NEWNS 0,
      Ev_mount (Some ''rootfs'') ''/'' None (MS_SLAVE OR MS_REC) None 0]\<rparr>"
  have wait: "waits_properly unforked_env"
    by (simp add: waits_properly_def unforked_env_def asked_env_def magisk_env_def calm_env_def)
  have req: "env_read unforked_env (history fresh_process) (Fd 4) 4 = Some (bytes_of_int 1234)"
    and fork: "env_fork unforked_env h = - 1" for h
    by (simp_all add: unforked_env_def asked_env_def)
  obtain r where r: "last (history (snd (run_state (zygisk_companion_handler unforked_env (Fd 4)) fresh_process)))
      = Ev_write (Fd 4) [0] r"
    using handler_answer [OF wait req] fork by auto
  have "Fd 9 \<noteq> no_fd" "\<And>h bs. env_write device_env h (Fd 9) bs = word_of_nat (length bs)"
    "\<And>h. env_read device_env h (Fd 9) 1 = Some [0]"
    by (simp_all add: device_env_def)
  moreover have "run_state (ScopedRegularReopener device_env) ?a = ([], ?a')"
    by (subst no_open_fds) (simp_all add: device_env_def zygote_def)
  moreover have "run_state (new_mount_ns device_env) ?a' = (Some True, ?a'')"
    by (simp add: new_mount_ns_def call_old_unshare_def run_simps device_env_def zygote_def)
  moreover have "map (\<lambda>m. (mount_point m, MNT_DETACH)) (selected magisk_table) = [(''/system/etc'', 2), (''/sbin'', 2)]"
    using magisk_selected_points
    by (simp add: MNT_DETACH_def flip: map_map [of "\<lambda>p. (p, 2)" mount_point, unfolded comp_def])
  ultimately show ?thesis
    using one_side_removes [OF wait req _ r, of fresh_process "Fd 9" device_env zygote "[]" ?a' ?a'']
    by (simp add: fork device_contents zygote_def)
qed

text \<open>
  C11: a failure nobody sees. When the child of the companion cannot enter the namespace of
  the app, it removes nothing and exits with 1, but the handler answers 1 all the same; an app
  that reads this answer takes it for success and removes nothing either. No mount is removed
  on either side.
\<close>

theorem refused_namespace_hides_nothing:
  assumes "waits_properly EC" and "env_read EC (history c) sock 4 = Some (bytes_of_int pid)"
    and "env_fork EC (history c @ [Ev_read sock 4 (Some (bytes_of_int pid))]) = child" and "child \<noteq> - 1"
    and "run_state (switchMountNS EC pid)
      (c\<lparr>history := history c @ [Ev_read sock 4 (Some (bytes_of_int pid)), Ev_fork child]\<rparr>) = (False, c')"
    and "f \<noteq> no_fd" and "\<And>h bs. env_write EA h f bs = word_of_nat (length bs)"
    and "\<And>h. env_read EA h f 1 = Some [1]"
    and "run_state (ScopedRegularReopener EA) (a\<lparr>callbackFunction := Empty_callback\<rparr>) = (srr, a')"
    and "run_state (new_mount_ns EA) a' = (Some True, a'')"
  shows "(\<exists>r. last (history (snd (run_state (zygisk_companion_handler EC sock) c))) = Ev_write sock [1] r)
     \<and> umounts (history (snd (run_state (zygisk_companion_handler EC sock) c))) = umounts (history c)
     \<and> umounts (history (snd (run_state (hide_callback EA f) a))) = umounts (history a)"
proof -
  have req: "requested EC sock c = c\<lparr>history := history c @ [Ev_read sock 4 (Some (bytes_of_int pid))]\<rparr>"
    using assms(2) by (simp add: requested_def)
  then have "run_state (switchMountNS EC pid) (forked EC (requested EC sock c)) = (False, c')"
    using assms(3,5) by (simp add: forked_def)
  then show ?thesis
    using handler_umounts [OF assms(1,2)] handler_answer [OF assms(1,2)] app_removes [OF assms(6-10) refl]
      assms(3,4) req by simp
qed

definition refused_env :: env where
  "refused_env = asked_env\<lparr>env_setns := (\<lambda>h f. - 1)\<rparr>"

definition trusting_env :: env where
  "trusting_env = magisk_env\<lparr>env_read := (\<lambda>h f n. Some [1])\<rparr>"

theorem refused_namespace_hides_nothing_witness:
  "umounts (history (snd (run_state (zygisk_companion_handler refused_env (Fd 4)) fresh_process))) = []
   \<and> umounts (history (snd (run_state (hide_callback trusting_env (Fd 9)) zygote))) = []"
proof -
  let ?read = "Ev_read (Fd 4) 4 (Some (bytes_of_int 1234))"
  let ?c' = "fresh_process\<lparr>history := [?read, Ev_fork 43, Ev_open (ns_path 1234) (Fd 7), Ev_setns (Fd 7) (- 1),
    Ev_close (Fd 7)]\<rparr>"
  let ?a = "zygote\<lparr>callbackFunction := Empty_callback\<rparr>"
  let ?a' = "?a\<lparr>history := [Ev_GetOpenFds True]\<rparr>"
  let ?a'' = "?a\<lparr>history := [Ev_GetOpenFds True, Ev_unshare 4096 CLONE_NEWNS 0,
      Ev_mount (Some ''rootfs'') ''/'' None (MS_SLAVE OR MS_REC) None 0]\<rparr>"
  have "waits_properly refused_env"
    by (simp add: waits_properly_def refused_env_def asked_env_def magisk_env_def calm_env_def)
  moreover have "env_read refused_env (history fresh_process) (Fd 4) 4 = Some (bytes_of_int 1234)"
    "env_fork refused_env (history fresh_process @ [?read]) = 43" "(43 :: c_int) \<noteq> - 1"
    by (simp_all add: refused_env_def asked_env_def magisk_env_def)
  moreover have "run_state (switchMountNS refused_env 1234)
      (fresh_process\<lparr>history := history fresh_process @ [?read, Ev_fork 43]\<rparr>) = (False, ?c')"
    by (simp add: run_switchMountNS refused_env_def asked_env_def magisk_env_def Let_def)
  moreover have "Fd 9 \<noteq> no_fd" "\<And>h bs. env_write trusting_env h (Fd 9) bs = word_of_nat (length bs)"
    "\<And>h. env_read trusting_env h (Fd 9) 1 = Some [1]"
    by (simp_all add: trusting_env_def magisk_env_def)
  moreover have "run_state (ScopedRegularReopener trusting_env) ?a = ([], ?a')"
    by (subst no_open_fds) (simp_all add: trusting_env_def magisk_env_def zygote_def)
  moreover have "run_state (new_mount_ns trusting_env) ?a' = (Some True, ?a'')"
    by (simp add: new_mount_ns_def call_old_unshare_def run_simps trusting_env_def magisk_env_def zygote_def)
  ultimately show ?thesis
    using refused_namespace_hides_nothing [of refused_env fresh_process "Fd 4" 1234 43 ?c' "Fd 9" trusting_env
        zygote "[]" ?a' ?a''] by (simp add: zygote_def)
qed

section \<open>Whose namespace is entered\<close>

fun written_to :: "fd \<Rightarrow> event \<Rightarrow> byte list option" where
  "written_to f (Ev_write g bs r) = (if f = g then Some bs else None)"
| "written_to f _ = None"

fun opened_path :: "event \<Rightarrow> string option" where
  "opened_path (Ev_open path g) = Some path"
| "opened_path _ = None"

definition opened_paths :: "history \<Rightarrow> string list" where
  "opened_paths h = List.map_filter opened_path h"

lemma opened_paths_append [simp]: "opened_paths (h @ h') = opened_paths h @ opened_paths h'"
  by (simp add: opened_paths_def List.map_filter_def)

lemma opened_paths_Nil [simp]: "opened_paths [] = []"
  by (simp add: opened_paths_def map_filter_simps)

lemma opened_paths_Cons:
  "opened_paths (e # h) = (case opened_path e of None \<Rightarrow> opened_paths h | Some p \<Rightarrow> p # opened_paths h)"
  by (simp add: opened_paths_def map_filter_simps split: option.split)

lemma opened_paths_same:
  assumes "emits (\<lambda>e. opened_path e = None) m" and "run_state m s = (a, t)"
  shows "opened_paths (history t) = opened_paths (history s)"
proof -
  have "list_all (\<lambda>e. opened_path e = None) es \<Longrightarrow> opened_paths es = []" for es
    by (induction es) (simp_all add: opened_paths_Cons)
  then show ?thesis using assms by (auto elim!: emitsD)
qed

lemma ask_companion_writes:
  assumes "f \<noteq> no_fd"
  shows "List.map_filter (written_to f) (history (snd (run_state (ask_companion E f) s))) =
     List.map_filter (written_to f) (history s) @ [bytes_of_int (env_getpid E (history s))]"
  using assms
  by (auto simp: ask_companion_def companion_request_def run_simps map_filter_simps List.map_filter_def
      split: option.split list.split)

lemma switchMountNS_opens:
  "opened_paths (history (snd (run_state (switchMountNS E pid) s))) = opened_paths (history s) @ [ns_path pid]"
  by (simp add: run_switchMountNS opened_paths_Cons Let_def)

lemma companion_child_opens:
  "opened_paths (history (snd (run_state (companion_child E pid) s))) = opened_paths (history s) @ [ns_path pid]"
proof -
  obtain ok t where t: "run_state (switchMountNS E pid) s = (ok, t)" by fastforce
  have "emits (\<lambda>e. opened_path e = None) (do { doUnmount E; doRemount E; doMrProp E })"
    by (auto intro!: emits_intros)
  from opened_paths_same [OF this] have
    "opened_paths (history (snd (run_state (do { doUnmount E; doRemount E; doMrProp E }) t))) = opened_paths (history t)"
    by (metis prod.collapse)
  then show ?thesis
    using t switchMountNS_opens [of E pid s]
    by (cases ok) (simp_all add: companion_child_refused companion_child_entered)
qed

lemma handler_opens:
  assumes "env_read E (history s) f 4 = Some (bytes_of_int pid)"
  shows "opened_paths (history (snd (run_state (zygisk_companion_handler E f) s))) =
     opened_paths (history s) @ (if env_fork E (history (requested E f s)) = - 1 then [] else [ns_path pid])"
proof -
  obtain code child where c: "run_state (companion_child E pid) (forked E (requested E f s)) = (code, child)"
    by fastforce
  obtain status t where st: "run_state (forkAndInvoke E (companion_child E pid)) (requested E f s) = (status, t)"
    by fastforce
  have "opened_paths (history child) = opened_paths (history s) @ [ns_path pid]"
    using companion_child_opens [of E pid "forked E (requested E f s)"] c
    by (simp add: forked_def requested_def opened_paths_Cons)
  then have "opened_paths (history t) =
      opened_paths (history s) @ (if env_fork E (history (requested E f s)) = - 1 then [] else [ns_path pid])"
    using st c
    by (auto simp: forkAndInvoke_def run_child_def forked_def [symmetric] opened_paths_Cons split: if_splits)
      (auto simp: forked_def requested_def opened_paths_Cons)
  then show ?thesis
    using handler_run [OF assms st] by (simp add: Let_def opened_paths_Cons)
qed



section \<open>The table of the app's namespace\<close>


definition answered_env :: env where
  "answered_env = device_env\<lparr>env_read := (\<lambda>h f n. Some [1])\<rparr>"

definition asked_42_env :: env where
  "asked_42_env = asked_env\<lparr>env_read := (\<lambda>h f n. Some (bytes_of_int 42))\<rparr>"

lemma asked_42: "mountinfo_contents asked_42_env h = magisk_table" "env_umount2 asked_42_env h p fl = 0"
  using magisk_contents [of h]
  by (simp_all add: asked_42_env_def asked_env_def mountinfo_contents_def magisk_umount2 cong: option.case_cong)


end
